theory Spec2Isabelle
  imports Main
begin

section \<open>Localization templates (concretize)\<close>

text \<open>
  The template language of \<^verbatim>\<open>concretize\<close>: a template string is read left to right by
  \<^verbatim>\<open>parseTemplate\<close>, which calls \<^verbatim>\<open>parseConditional\<close> for \<^verbatim>\<open>$n ?? [yes | no]\<close>, which
  calls \<^verbatim>\<open>parseTemplate\<close> again for the two branches. The \<^verbatim>\<open>Template\<close> object is the
  remaining text; every function that advances it returns the text that is left.

  A JavaScript string is a sequence of UTF-16 code units; the model is over \<^typ>\<open>string\<close>,
  that is over the code units below 256. The reserved characters \<^verbatim>\<open>$ [ ] | ?\<close>, the digits
  and the word characters all lie there. Of the white space that \<^verbatim>\<open>\s\<close> matches, seven
  code units lie there; the others (such as U+2028 or U+FEFF) are outside the model.
\<close>

subsection \<open>Inputs, descriptions, locale\<close>

typedecl JSNumber
typedecl NodeRef
typedecl ValueLink

text \<open>
  \<^verbatim>\<open>TemplateInput = number | boolean | string | undefined | NodeRef | ValueLink | Description\<close>.
  The class \<^verbatim>\<open>Description\<close> is imported by the source and not defined in it: its
  values are the type parameter \<open>'d\<close>.
\<close>

datatype 'd TemplateInput =
    Number JSNumber
  | Boolean bool
  | String string
  | Undefined
  | NodeRefInput NodeRef
  | ValueLinkInput ValueLink
  | DescriptionInput 'd

text \<open>
  The three operations of \<^verbatim>\<open>Description\<close> that the source calls: the constructor
  \<^verbatim>\<open>new Description(parts)\<close>, the method \<^verbatim>\<open>description.with(part)\<close> and the static
  \<^verbatim>\<open>Description.as(text)\<close>. They are parameters of the model.
\<close>

record 'd DescriptionClass =
  Description_new :: "'d TemplateInput list \<Rightarrow> 'd"
  Description_with :: "'d \<Rightarrow> 'd TemplateInput \<Rightarrow> 'd"
  Description_as :: "string \<Rightarrow> 'd"

text \<open>
  The two parts of a \<^verbatim>\<open>Locale\<close> that the source reads: \<^verbatim>\<open>locale.ui.placeholders.unwritten\<close>
  and the dictionary \<^verbatim>\<open>locale.term\<close>.
\<close>

record Locale =
  unwritten :: string
  "term" :: "string \<rightharpoonup> string"

subsection \<open>The class Template\<close>

definition template_empty :: "string \<Rightarrow> bool" where
  "template_empty text = (length text = 0)"

definition template_is :: "string \<Rightarrow> string \<Rightarrow> bool" where
  \<comment> \<open>\<^verbatim>\<open>template.is(s)\<close>: \<^verbatim>\<open>this.text.startsWith(s)\<close>\<close>
  "template_is s text = (take (length s) text = s)"

definition template_isnt :: "string \<Rightarrow> string \<Rightarrow> bool" where
  "template_isnt s text = (\<not> (take (length s) text = s))"

definition template_peek :: "string \<Rightarrow> string" where
  \<comment> \<open>\<^verbatim>\<open>this.text.charAt(0)\<close>: the empty string when the text is empty\<close>
  "template_peek text = take 1 text"

definition template_next :: "nat \<Rightarrow> string \<Rightarrow> string \<times> string" where
  \<comment> \<open>\<^verbatim>\<open>template.next(len)\<close>: the character returned, and the text left\<close>
  "template_next len text = (template_peek text, drop len text)"

subsection \<open>The three regular expressions\<close>

definition digit :: "char \<Rightarrow> bool" where
  \<comment> \<open>\<^verbatim>\<open>[0-9]\<close>\<close>
  "digit c = (let n = (of_char c :: nat) in 48 \<le> n \<and> n \<le> 57)"

definition word_char :: "char \<Rightarrow> bool" where
  \<comment> \<open>\<^verbatim>\<open>\w\<close> is \<^verbatim>\<open>[A-Za-z0-9_]\<close>\<close>
  "word_char c = (let n = (of_char c :: nat) in
     (65 \<le> n \<and> n \<le> 90) \<or> (97 \<le> n \<and> n \<le> 122) \<or> (48 \<le> n \<and> n \<le> 57) \<or> n = 95)"

definition white_space :: "char \<Rightarrow> bool" where
  \<comment> \<open>\<^verbatim>\<open>\s\<close> on code units below 256: tab, line feed, vertical tab, form feed,
      carriage return, space, no-break space\<close>
  "white_space c = (let n = (of_char c :: nat) in (9 \<le> n \<and> n \<le> 13) \<or> n = 32 \<or> n = 160)"

definition matches_number :: "string \<Rightarrow> string option" where
  \<comment> \<open>\<^verbatim>\<open>template.matches(/^[0-9]+/)\<close>: the matched text, \<open>None\<close> for \<^verbatim>\<open>null\<close>\<close>
  "matches_number text =
     (let m = takeWhile digit text in if m = [] then None else Some m)"

definition matches_condition :: "string \<Rightarrow> string option" where
  \<comment> \<open>\<^verbatim>\<open>template.matches(/^\s+\?\?/)\<close>\<close>
  "matches_condition text =
     (let ws = takeWhile white_space text in
      if ws \<noteq> [] \<and> template_is ''??'' (dropWhile white_space text) then Some (ws @ ''??'') else None)"

definition matches_word :: "string \<Rightarrow> string option" where
  \<comment> \<open>\<^verbatim>\<open>template.matches(/^\w+/)\<close>\<close>
  "matches_word text =
     (let m = takeWhile word_char text in if m = [] then None else Some m)"

definition parseInt :: "string \<Rightarrow> nat" where
  \<comment> \<open>\<^verbatim>\<open>parseInt\<close> on a non-empty string of decimal digits\<close>
  "parseInt ds = foldl (\<lambda>n c. 10 * n + ((of_char c :: nat) - 48)) 0 ds"

definition input_at :: "'d TemplateInput list \<Rightarrow> nat \<Rightarrow> 'd TemplateInput" where
  \<comment> \<open>\<^verbatim>\<open>inputs[number - 1]\<close>: \<^verbatim>\<open>undefined\<close> outside the array, also at index -1\<close>
  "input_at inputs number =
     (if number = 0 then Undefined
      else if number - 1 < length inputs then inputs ! (number - 1)
      else Undefined)"

subsection \<open>The inner loops\<close>

fun skip_until :: "string \<Rightarrow> string \<Rightarrow> string" where
  \<comment> \<open>\<^verbatim>\<open>while (!template.empty() && template.isnt(s)) template.next();\<close>\<close>
  "skip_until s [] = []"
| "skip_until s (c # cs) = (if template_isnt s (c # cs) then skip_until s cs else c # cs)"

fun read_text :: "string \<Rightarrow> string \<Rightarrow> string \<times> string" where
  \<comment> \<open>the loop \<^verbatim>\<open>text += template.next()\<close>: the text read and the text left\<close>
  "read_text acc [] = (acc, [])"
| "read_text acc (c # cs) =
     (if template_isnt ''$'' (c # cs) \<and> template_isnt '']'' (c # cs) \<and> template_isnt ''|'' (c # cs)
      then read_text (acc @ [c]) cs
      else (acc, c # cs))"

lemma length_skip_until: "length (skip_until s t) \<le> length t"
  by (induction t) (auto simp: le_SucI)

lemma length_read_text: "length (snd (read_text acc t)) \<le> length t"
  by (induction t arbitrary: acc) (auto simp: le_SucI)

subsection \<open>parseTemplate and parseConditional\<close>

text \<open>
  One iteration of the \<^verbatim>\<open>while\<close> loop of \<^verbatim>\<open>parseTemplate\<close> either extends the
  description and advances the template, or has read \<^verbatim>\<open>$n ??\<close> and calls
  \<^verbatim>\<open>parseConditional\<close>. \<open>parseTemplate_iteration\<close> is the loop body up to that call:
  \<open>Continue\<close> carries the new description and template, \<open>Conditional\<close> the first
  argument of \<^verbatim>\<open>parseConditional\<close> and the template after the \<^verbatim>\<open>??\<close>.
\<close>

datatype 'd iteration =
    Continue 'd string
  | Conditional bool string

definition parseTemplate_iteration ::
  "'d DescriptionClass \<Rightarrow> Locale \<Rightarrow> 'd TemplateInput list \<Rightarrow> 'd \<Rightarrow> string \<Rightarrow> 'd iteration"
where
  "parseTemplate_iteration D locale inputs description template =
     (if template_is ''$$'' template then
        Continue (Description_with D description (String ''$'')) (snd (template_next 2 template))
      else if template_is ''[['' template then
        Continue (Description_with D description (String ''['')) (snd (template_next 2 template))
      else if template_is '']]'' template then
        Continue (Description_with D description (String '']'')) (snd (template_next 2 template))
      else if template_is ''||'' template then
        Continue (Description_with D description (String ''|'')) (snd (template_next 2 template))
      else if template_is ''$'' template then
        (let afterDollar = snd (template_next 1 template) in
         case matches_number afterDollar of
           Some numberMatch \<Rightarrow>
             (let afterNumber = snd (template_next (length numberMatch) afterDollar);
                  number = parseInt numberMatch;
                  input = input_at inputs number
              in case matches_condition afterNumber of
                   Some conditionMatch \<Rightarrow>
                     Conditional (input = Boolean True \<or> input \<noteq> Undefined)
                       (snd (template_next (length conditionMatch) afterNumber))
                 | None \<Rightarrow> Continue (Description_with D description input) afterNumber)
         | None \<Rightarrow>
             (case matches_word afterDollar of
                Some idMatch \<Rightarrow>
                  Continue
                    (Description_with D description
                       (String (case term locale idMatch of Some phrase \<Rightarrow> phrase | None \<Rightarrow> ''-'')))
                    (snd (template_next (length idMatch) afterDollar))
              | None \<Rightarrow> Continue description afterDollar))
      else
        Continue (Description_with D description (String (fst (read_text [] template))))
          (snd (read_text [] template)))"

function
  parseTemplate ::
    "'d DescriptionClass \<Rightarrow> Locale \<Rightarrow> string \<Rightarrow> 'd TemplateInput list \<Rightarrow> ('d \<times> string) option"
and
  parseTemplate_while ::
    "'d DescriptionClass \<Rightarrow> Locale \<Rightarrow> 'd TemplateInput list \<Rightarrow> 'd \<Rightarrow> string \<Rightarrow> ('d \<times> string) option"
and
  parseConditional ::
    "'d DescriptionClass \<Rightarrow> bool \<Rightarrow> Locale \<Rightarrow> string \<Rightarrow> 'd TemplateInput list \<Rightarrow> ('d \<times> string) option"
where
  "parseTemplate D locale template inputs =
     parseTemplate_while D locale inputs (Description_new D []) template"
| "parseTemplate_while D locale inputs description template =
     (if \<not> template_empty template \<and> template_isnt ''|'' template
          \<and> template_isnt '']'' template \<and> template_isnt ''['' template
      then
        (case parseTemplate_iteration D locale inputs description template of
           Continue description' template' \<Rightarrow>
             parseTemplate_while D locale inputs description' template'
         | Conditional yes template' \<Rightarrow>
             (case parseConditional D yes locale template' inputs of
                Some (value, rest) \<Rightarrow>
                  parseTemplate_while D locale inputs
                    (Description_with D description (DescriptionInput value)) rest
              | None \<Rightarrow> None))
      else Some (description, template))"
| "parseConditional D yes locale template inputs =
     (if template_empty (skip_until ''['' template) \<or> template_isnt ''['' (skip_until ''['' template)
      then None
      else
        (case parseTemplate D locale (snd (template_next 1 (skip_until ''['' template))) inputs of
           None \<Rightarrow> None
         | Some (yesDescription, afterYes) \<Rightarrow>
             if template_empty (skip_until ''|'' afterYes) \<or> template_isnt ''|'' (skip_until ''|'' afterYes)
             then None
             else
               (case parseTemplate D locale (snd (template_next 1 (skip_until ''|'' afterYes))) inputs of
                  None \<Rightarrow> None
                | Some (noDescription, afterNo) \<Rightarrow>
                    if template_empty (skip_until '']'' afterNo) \<or> template_isnt '']'' (skip_until '']'' afterNo)
                    then None
                    else Some (if yes then yesDescription else noDescription,
                               snd (template_next 1 (skip_until '']'' afterNo))))))"
  by pat_completeness auto

text \<open>
  Termination: every recursive call is on a strictly shorter template. The text that a call
  returns is first shown to be no longer than the text it received, on the domain of the
  functions; the measure is the length of the template.
\<close>

lemma snd_template_next: "snd (template_next n t) = drop n t"
  by (simp add: template_next_def)

lemma template_empty_iff: "template_empty t = (t = [])"
  by (simp add: template_empty_def)

lemma read_text_progress:
  "t \<noteq> [] \<Longrightarrow> \<not> template_is ''$'' t \<Longrightarrow> template_isnt '']'' t \<Longrightarrow> template_isnt ''|'' t \<Longrightarrow>
     length (snd (read_text acc t)) < length t"
  by (cases t) (auto simp: template_is_def template_isnt_def less_Suc_eq_le length_read_text)

lemma drop_progress1: "t \<noteq> [] \<Longrightarrow> length (drop (Suc k) t) < length t"
  by (cases t) (auto simp: less_Suc_eq_le)

lemma iteration_cases:
  assumes "t \<noteq> []" "template_isnt ''|'' t" "template_isnt '']'' t"
  shows "(\<exists>d' n. parseTemplate_iteration D loc ins d t = Continue d' (drop (Suc n) t))
       \<or> (\<exists>y n. parseTemplate_iteration D loc ins d t = Conditional y (drop (Suc n) t))
       \<or> (\<not> template_is ''$'' t \<and> (\<exists>d'. parseTemplate_iteration D loc ins d t = Continue d' (snd (read_text [] t))))"
  unfolding parseTemplate_iteration_def snd_template_next Let_def numeral_2_eq_2 One_nat_def drop_drop
  by (simp split: option.split) blast

lemma iteration_progress:
  assumes "t \<noteq> []" "template_isnt ''|'' t" "template_isnt '']'' t"
  shows "parseTemplate_iteration D loc ins d t = Continue d' t' \<Longrightarrow> length t' < length t"
    and "parseTemplate_iteration D loc ins d t = Conditional yes t' \<Longrightarrow> length t' < length t"
  using iteration_cases[OF assms, of D loc ins d] assms
  by (auto simp: drop_progress1 read_text_progress)

lemma skip_next_progress:
  "skip_until s t \<noteq> [] \<Longrightarrow> length (skip_until s t) - Suc 0 < length t"
  using length_skip_until[of s t] by (cases "skip_until s t") auto

lemma parse_dom_length:
  "parseTemplate_parseTemplate_while_parseConditional_dom (Inl (D, loc, template, inputs)) \<Longrightarrow>
     parseTemplate D loc template inputs = Some (d, r) \<Longrightarrow> length r \<le> length template"
  "parseTemplate_parseTemplate_while_parseConditional_dom (Inr (Inl (D, loc, inputs, description, template))) \<Longrightarrow>
     parseTemplate_while D loc inputs description template = Some (d, r) \<Longrightarrow> length r \<le> length template"
  "parseTemplate_parseTemplate_while_parseConditional_dom (Inr (Inr (D, yes, loc, template, inputs))) \<Longrightarrow>
     parseConditional D yes loc template inputs = Some (d, r) \<Longrightarrow> length r \<le> length template"
proof (induct arbitrary: d r and d r and d r rule: parseTemplate_parseTemplate_while_parseConditional.pinduct)
  case (1 D loc template inputs)
  then show ?case by (simp add: parseTemplate.psimps)
next
  case (2 D loc inputs description template)
  note dom = 2(1) and IH = 2(2-4) and res = 2(5)
  show ?case
  proof (cases "\<not> template_empty template \<and> template_isnt ''|'' template \<and>
                template_isnt '']'' template \<and> template_isnt ''['' template")
    case False
    with res dom show ?thesis by (simp add: parseTemplate_while.psimps)
  next
    case guard: True
    then have ne: "template \<noteq> []" "template_isnt ''|'' template" "template_isnt '']'' template"
      by (simp_all add: template_empty_iff)
    show ?thesis
    proof (cases "parseTemplate_iteration D loc inputs description template")
      case (Continue d' t')
      with res guard dom have "parseTemplate_while D loc inputs d' t' = Some (d, r)"
        by (simp add: parseTemplate_while.psimps)
      from IH(1)[OF guard Continue this] iteration_progress(1)[OF ne Continue]
      show ?thesis by simp
    next
      case (Conditional yes t')
      with res guard dom obtain v rest where
        pc: "parseConditional D yes loc t' inputs = Some (v, rest)" and
        pw: "parseTemplate_while D loc inputs (Description_with D description (DescriptionInput v)) rest = Some (d, r)"
        by (auto simp: parseTemplate_while.psimps split: option.splits)
      from IH(2)[OF guard Conditional pc] have "length rest \<le> length t'" .
      moreover from IH(3)[OF guard Conditional pc refl pw] have "length r \<le> length rest" .
      moreover note iteration_progress(2)[OF ne Conditional]
      ultimately show ?thesis by simp
    qed
  qed
next
  case (3 D yes loc template inputs)
  note dom = 3(1) and IH = 3(2-3) and res = 3(4)
  let ?s1 = "skip_until ''['' template"
  from res have g1: "\<not> (template_empty ?s1 \<or> template_isnt ''['' ?s1)"
    by (subst (asm) parseConditional.psimps[OF dom]) (simp split: if_splits)
  with res obtain yd ay where
    p1: "parseTemplate D loc (snd (template_next 1 ?s1)) inputs = Some (yd, ay)"
    by (subst (asm) parseConditional.psimps[OF dom]) (auto split: option.splits)
  let ?s2 = "skip_until ''|'' ay"
  from res g1 p1 have g2: "\<not> (template_empty ?s2 \<or> template_isnt ''|'' ?s2)"
    by (subst (asm) parseConditional.psimps[OF dom]) (simp split: if_splits)
  with res g1 p1 obtain nd an where
    p2: "parseTemplate D loc (snd (template_next 1 ?s2)) inputs = Some (nd, an)"
    by (subst (asm) parseConditional.psimps[OF dom]) (auto split: option.splits)
  from res g1 p1 g2 p2 have r: "r = snd (template_next 1 (skip_until '']'' an))"
    by (subst (asm) parseConditional.psimps[OF dom]) (simp split: if_splits)
  from IH(1)[OF g1 p1] have "length ay \<le> length ?s1" by (simp add: snd_template_next)
  moreover from IH(2)[OF g1 p1 refl g2 p2] have "length an \<le> length ?s2"
    by (simp add: snd_template_next)
  moreover have "length ?s1 \<le> length template" "length ?s2 \<le> length ay"
    "length (skip_until '']'' an) \<le> length an" by (rule length_skip_until)+
  ultimately show ?case unfolding r by (simp add: snd_template_next)
qed

termination parseTemplate
proof (relation "measure (\<lambda>x. case x of
            Inl (D, l, t, i) \<Rightarrow> 2 * length t + 1
          | Inr (Inl (D, l, i, d, t)) \<Rightarrow> 2 * length t
          | Inr (Inr (D, y, l, t, i)) \<Rightarrow> 2 * length t)", goal_cases)
  case 1 show ?case by simp
next
  case 2 then show ?case by simp
next
  case 3 then show ?case by (simp add: template_empty_iff iteration_progress(1))
next
  case 4 then show ?case by (simp add: template_empty_iff iteration_progress(2))
next
  case (5 D loc inputs description template yes t' x2 v rest)
  then have ne: "template \<noteq> []" "template_isnt ''|'' template" "template_isnt '']'' template"
    by (simp_all add: template_empty_iff)
  from 5 have pc: "parseConditional D yes loc t' inputs = Some (v, rest)" by simp
  from parse_dom_length(3)[OF 5(5) pc] iteration_progress(2)[OF ne 5(2)]
  show ?case by simp
next
  case (6 D yes loc template inputs)
  then have "skip_until ''['' template \<noteq> []" by (simp add: template_empty_iff)
  from skip_next_progress[OF this] show ?case by (simp add: snd_template_next)
next
  case (7 D yes loc template inputs x2 x y)
  from 7(2) 7(3) have "parseTemplate D loc (snd (template_next 1 (skip_until ''['' template))) inputs = Some (x, y)"
    by simp
  from parse_dom_length(1)[OF 7(5) this]
  have "length y \<le> length (skip_until ''['' template) - 1" by (simp add: snd_template_next)
  moreover have "length (skip_until ''|'' y) \<le> length y" by (rule length_skip_until)
  moreover have "length (skip_until ''['' template) \<le> length template" by (rule length_skip_until)
  moreover from 7(1) have "skip_until ''['' template \<noteq> []" by (simp add: template_empty_iff)
  moreover from 7(4) have "skip_until ''|'' y \<noteq> []" by (simp add: template_empty_iff)
  ultimately have "length (skip_until ''|'' y) - 1 < length template"
    by (cases "skip_until ''['' template"; cases "skip_until ''|'' y") auto
  then show ?case by (simp add: snd_template_next)
qed

declare parseTemplate.simps [simp del]
declare parseTemplate_while.simps [simp del]
declare parseConditional.simps [simp del]

subsection \<open>concretize\<close>

definition concretizeOrUndefined ::
  "'d DescriptionClass \<Rightarrow> Locale \<Rightarrow> string \<Rightarrow> 'd TemplateInput list \<Rightarrow> 'd option"
where
  \<comment> \<open>the \<^verbatim>\<open>Template\<close> made here is dropped after the call: only the description is returned\<close>
  "concretizeOrUndefined D locale template inputs =
     (if template = [] \<or> template = ''$?'' then Some (Description_as D (unwritten locale))
      else map_option fst (parseTemplate D locale template inputs))"

definition concretize ::
  "'d DescriptionClass \<Rightarrow> Locale \<Rightarrow> string \<Rightarrow> 'd TemplateInput list \<Rightarrow> 'd"
where
  \<comment> \<open>\<^verbatim>\<open>concretizeOrUndefined(locale, template, ...inputs) ?? Description.as('-')\<close>\<close>
  "concretize D locale template inputs =
     (case concretizeOrUndefined D locale template inputs of
        Some description \<Rightarrow> description
      | None \<Rightarrow> Description_as D ''-'')"

subsection \<open>Shapes of templates used in the statements\<close>

text \<open>
  A text is plain when it has none of the four reserved characters; parsed on its own it
  gives the empty description when it is empty, and a single text part otherwise.
\<close>

definition number_text :: "string \<Rightarrow> bool" where
  \<comment> \<open>the texts that \<^verbatim>\<open>[0-9]+\<close> matches wholly\<close>
  "number_text ds = (ds \<noteq> [] \<and> list_all digit ds)"

fun decimal :: "nat \<Rightarrow> string" where
  \<comment> \<open>the decimal numeral of a number, without leading zeros\<close>
  "decimal n =
     (if n < 10 then [char_of (48 + n)]
      else decimal (n div 10) @ [char_of (48 + n mod 10)])"

declare decimal.simps [simp del]

definition numeral_text :: "nat \<Rightarrow> nat \<Rightarrow> string" where
  \<comment> \<open>the decimal numeral of a number after some leading zeros: every text that
      \<^verbatim>\<open>[0-9]+\<close> matches wholly is one of these\<close>
  "numeral_text zeros n = replicate zeros (CHR ''0'') @ decimal n"

definition space_text :: "string \<Rightarrow> bool" where
  \<comment> \<open>the texts that \<^verbatim>\<open>\s+\<close> matches wholly\<close>
  "space_text ws = (ws \<noteq> [] \<and> list_all white_space ws)"

definition plain :: "string \<Rightarrow> bool" where
  "plain t = (\<forall>c \<in> set t. c \<noteq> CHR ''$'' \<and> c \<noteq> CHR ''['' \<and> c \<noteq> CHR '']'' \<and> c \<noteq> CHR ''|'')"

definition text_description :: "'d DescriptionClass \<Rightarrow> string \<Rightarrow> 'd" where
  "text_description D Y =
     (if Y = [] then Description_new D [] else Description_with D (Description_new D []) (String Y))"

text \<open>
  A conditional is unterminated when the text after \<^verbatim>\<open>??\<close> has no \<^verbatim>\<open>[\<close>, or has a
  \<^verbatim>\<open>[\<close> and a plain yes branch but no \<^verbatim>\<open>|\<close>, or has both plain branches but no \<^verbatim>\<open>]\<close>.
\<close>

definition unterminated :: "string \<Rightarrow> bool" where
  "unterminated r =
     (CHR ''['' \<notin> set r
      \<or> (\<exists>pre Y. r = pre @ ''['' @ Y \<and> CHR ''['' \<notin> set pre \<and> plain Y)
      \<or> (\<exists>pre Y N. r = pre @ ''['' @ Y @ ''|'' @ N \<and> CHR ''['' \<notin> set pre \<and> plain Y \<and> plain N))"

text \<open>
  An instance of the \<^verbatim>\<open>Description\<close> operations, for evaluating examples: a description
  is the list of its parts, \<^verbatim>\<open>with\<close> appends a part and \<^verbatim>\<open>as\<close> makes a single text part.
\<close>

datatype ListDescription = Parts "ListDescription TemplateInput list"

definition ListDescriptionClass :: "ListDescription DescriptionClass" where
  "ListDescriptionClass =
     \<lparr> Description_new = Parts,
       Description_with = (\<lambda>description part. case description of Parts parts \<Rightarrow> Parts (parts @ [part])),
       Description_as = (\<lambda>text. Parts [String text]) \<rparr>"

definition example_locale :: Locale where
  "example_locale = \<lparr> unwritten = ''TBD'', term = [''program'' \<mapsto> ''programme''] \<rparr>"

section \<open>The evaluation engine\<close>

text \<open>
  Modelled from the spec: the Step Generator, the Evaluator, the Stream Registry and the
  Reactive Scheduler. The sources have the concept index, the templates, a conflict and the
  tests of the evaluator, and not the evaluator itself: every definition of this section
  follows the words of the specification (its sections 3 to 7), and the section of the
  specification is named at each definition.
\<close>

subsection \<open>Values, nodes and steps\<close>

text \<open>
  Modelled from the spec: the data model of section 3 and the error taxonomy of section 7.
  A Node has a stable id and owns its children. Of the closed set of node kinds the model has
  the three that the statements below need: a literal, a stream read, and a chain of binary
  operators \<open>first op\<^sub>1 n\<^sub>1 \<dots> op\<^sub>k n\<^sub>k\<close> as it is written in the source text. A Value is
  numeric, textual, boolean, structured or an exception value; an exception is an ordinary
  value. \<open>InternalInvariantViolation\<close> is the one error that is not a value: it is a status of
  the engine. A Step is one of push-operand, evaluate-child(index), apply-operation, finish
  and initialize; the initialize step carries the name of the stream to fetch, in place of
  a callback (section 9).
\<close>

type_synonym node_id = nat
type_synonym stream_name = string

datatype exception_kind =
    CompileTimeConflict
  | UnknownName
  | RuntimeTypeMismatch
  | NonTermination
  | StreamUnavailable

datatype val =
    NumberValue int
  | TextValue string
  | BooleanValue bool
  | StructureValue "val list"
  | ExceptionValue exception_kind

datatype operator = Plus | Times | Greater

datatype node =
    Literal node_id val
  | StreamRead node_id stream_name
  | BinaryOperation node_id node "(operator \<times> node) list"

datatype step =
    PushOperand val
  | EvaluateChild nat
  | ApplyOperation operator
  | Finish
  | Initialize stream_name

fun node_id :: "node \<Rightarrow> node_id" where
  \<comment> \<open>Modelled from the spec: the stable id of a Node (section 3)\<close>
  "node_id (Literal i v) = i"
| "node_id (StreamRead i name) = i"
| "node_id (BinaryOperation i first rest) = i"

fun children :: "node \<Rightarrow> node list" where
  \<comment> \<open>Modelled from the spec: the ordered children of a Node (section 6)\<close>
  "children (Literal i v) = []"
| "children (StreamRead i name) = []"
| "children (BinaryOperation i first rest) = first # map snd rest"

fun subnodes :: "node \<Rightarrow> node list" where
  \<comment> \<open>Modelled from the spec: the nodes of a subtree, the root of the subtree first\<close>
  "subnodes (Literal i v) = [Literal i v]"
| "subnodes (StreamRead i name) = [StreamRead i name]"
| "subnodes (BinaryOperation i first rest) =
     BinaryOperation i first rest # subnodes first @ concat (map (\<lambda>(op, n). subnodes n) rest)"

fun apply_operation :: "operator \<Rightarrow> val \<Rightarrow> val \<Rightarrow> val" where
  \<comment> \<open>Modelled from the spec: an operation on two Values (section 4.2); an exception operand
      is passed on as data and any other ill-typed operand is a RuntimeTypeMismatch (section 7)\<close>
  "apply_operation Plus (NumberValue a) (NumberValue b) = NumberValue (a + b)"
| "apply_operation Times (NumberValue a) (NumberValue b) = NumberValue (a * b)"
| "apply_operation Greater (NumberValue a) (NumberValue b) = BooleanValue (a > b)"
| "apply_operation op (ExceptionValue e) right = ExceptionValue e"
| "apply_operation op left (ExceptionValue e) = ExceptionValue e"
| "apply_operation op left right = ExceptionValue RuntimeTypeMismatch"

fun operation_steps :: "nat \<Rightarrow> operator list \<Rightarrow> step list" where
  \<comment> \<open>Modelled from the spec: the steps of the operators of a chain, in source order
      (section 4.1): evaluate the next operand, then apply the operator\<close>
  "operation_steps k [] = []"
| "operation_steps k (op # ops) = EvaluateChild k # ApplyOperation op # operation_steps (Suc k) ops"

fun generate :: "node \<Rightarrow> step list" where
  \<comment> \<open>Modelled from the spec: \<^verbatim>\<open>generate(node) -> Sequence<Step>\<close> of the Step Generator
      (section 4.1), a function of the node's structure that reads no stream; a stream read
      compiles to an initialize step that fetches the value when it runs\<close>
  "generate (Literal i v) = [PushOperand v, Finish]"
| "generate (StreamRead i name) = [Initialize name, Finish]"
| "generate (BinaryOperation i first rest) =
     EvaluateChild 0 # operation_steps 1 (map fst rest) @ [Finish]"

fun value_of :: "(stream_name \<Rightarrow> val option) \<Rightarrow> (stream_name \<Rightarrow> val) \<Rightarrow> node \<Rightarrow> val" where
  \<comment> \<open>Modelled from the spec: the Value of a node against a stream snapshot, a chain being
      folded from the left over its operands in source order (sections 4.1 and 8); a stream
      without a value degrades to the project-defined default (section 4.3)\<close>
  "value_of snap dflt (Literal i v) = v"
| "value_of snap dflt (StreamRead i name) = (case snap name of Some v \<Rightarrow> v | None \<Rightarrow> dflt name)"
| "value_of snap dflt (BinaryOperation i first rest) =
     foldl (\<lambda>left (op, n). apply_operation op left (value_of snap dflt n))
       (value_of snap dflt first) rest"

subsection \<open>Frames and the state of the engine\<close>

text \<open>
  Modelled from the spec: the Frame of section 3, the terminal states of section 4.2 and the
  shared state of section 5. A frame has the node it evaluates, the node's steps, the step
  cursor and the local value stack; the call stack is the list of frames, the enclosing frame
  being the next of the list. The node kinds of the model bind no names, so a frame has no
  bindings. The engine has the program, the step budget, the default value of each stream,
  the history of each stream, the queue of the events that have arrived and are not yet
  recorded, the subscribers of each stream, the cache of committed values by node id, the
  set of stale node ids, a counter of executions by node id, the call stack, the snapshot of
  the pass, the status, the steps taken in the pass, the abort request and the sequence of
  committed root values.
\<close>

record frame =
  frame_node :: node
  frame_steps :: "step list"
  cursor :: nat
  value_stack :: "val list"

datatype terminal = Done val | Exception val | BudgetExceeded | Aborted

datatype status = Idle | Running | Terminated terminal | InternalInvariantViolation

record engine =
  program :: node
  budget :: nat
  defaults :: "stream_name \<Rightarrow> val"
  history :: "stream_name \<Rightarrow> val list"
  queue :: "(stream_name \<times> val) list"
  subscribers :: "stream_name \<Rightarrow> node_id list"
  cache :: "node_id \<rightharpoonup> val"
  stale :: "node_id set"
  executions :: "node_id \<Rightarrow> nat"
  frames :: "frame list"
  snapshot :: "stream_name \<rightharpoonup> val"
  status :: status
  steps_taken :: nat
  abort_requested :: bool
  committed :: "val list"

subsection \<open>The Evaluator\<close>

text \<open>
  Modelled from the spec: the Evaluator of section 4.2, a stack machine that advances one
  step per tick. Entering a child pushes a new frame; completing a node pops its frame and
  pushes its value on the parent's value stack; a stream read consults the snapshot of the
  pass and registers the node as a subscriber. A child with no stale node in its subtree is
  not entered: its cached value is pushed (the recomputation policy of section 4.3).
\<close>

definition is_exception :: "val \<Rightarrow> bool" where
  \<comment> \<open>Modelled from the spec: whether a Value is an exception value\<close>
  "is_exception v = (case v of ExceptionValue e \<Rightarrow> True | _ \<Rightarrow> False)"

definition terminal_of :: "val \<Rightarrow> terminal" where
  \<comment> \<open>Modelled from the spec: the terminal state of a pass whose root has the value \<open>v\<close>:
      \<^verbatim>\<open>Exception(Value)\<close> when it is an exception value, \<^verbatim>\<open>Done(Value)\<close> otherwise\<close>
  "terminal_of v = (if is_exception v then Exception v else Done v)"

definition new_frame :: "node \<Rightarrow> frame" where
  \<comment> \<open>Modelled from the spec: the frame pushed when a node is entered\<close>
  "new_frame n = \<lparr> frame_node = n, frame_steps = generate n, cursor = 0, value_stack = [] \<rparr>"

definition push_value :: "val \<Rightarrow> frame \<Rightarrow> frame" where
  \<comment> \<open>Modelled from the spec: a value is pushed on the value stack of a frame, whose cursor
      moves to the next step\<close>
  "push_value v f = f\<lparr> value_stack := v # value_stack f, cursor := cursor f + 1 \<rparr>"

definition reusable :: "engine \<Rightarrow> node \<Rightarrow> val option" where
  \<comment> \<open>Modelled from the spec: the cached Value of a subtree with no stale node
      (recomputation policy, section 4.3)\<close>
  "reusable s n =
     (if \<exists>m \<in> set (subnodes n). node_id m \<in> stale s then None else cache s (node_id n))"

definition enter :: "node \<Rightarrow> engine \<Rightarrow> engine" where
  \<comment> \<open>Modelled from the spec: entering a node pushes a new frame; the counter of executions
      of the node is the recomputation counter of section 8\<close>
  "enter n s =
     s\<lparr> frames := new_frame n # frames s,
        executions := (executions s)(node_id n := executions s (node_id n) + 1) \<rparr>"

definition violation :: "engine \<Rightarrow> engine" where
  \<comment> \<open>Modelled from the spec: InternalInvariantViolation, the fatal error of section 7\<close>
  "violation s = s\<lparr> status := InternalInvariantViolation \<rparr>"

fun execute :: "step \<Rightarrow> frame \<Rightarrow> frame list \<Rightarrow> engine \<Rightarrow> engine" where
  \<comment> \<open>Modelled from the spec: the execution of one Step in the top frame \<open>f\<close> above the
      frames \<open>fs\<close> (section 4.2)\<close>
  "execute (PushOperand v) f fs s = s\<lparr> frames := push_value v f # fs \<rparr>"
| "execute (Initialize name) f fs s =
     s\<lparr> frames :=
          push_value (case snapshot s name of Some v \<Rightarrow> v | None \<Rightarrow> defaults s name) f # fs,
        subscribers :=
          (subscribers s)(name := List.insert (node_id (frame_node f)) (subscribers s name)) \<rparr>"
| "execute (EvaluateChild k) f fs s =
     (if k < length (children (frame_node f)) then
        (case reusable s (children (frame_node f) ! k) of
           Some v \<Rightarrow> s\<lparr> frames := push_value v f # fs \<rparr>
         | None \<Rightarrow> enter (children (frame_node f) ! k) s)
      else violation s)"
| "execute (ApplyOperation op) f fs s =
     (case value_stack f of
        right # left # vs \<Rightarrow>
          s\<lparr> frames := f\<lparr> value_stack := apply_operation op left right # vs,
                          cursor := cursor f + 1 \<rparr> # fs \<rparr>
      | _ \<Rightarrow> violation s)"
| "execute Finish f fs s =
     (case value_stack f of
        [] \<Rightarrow> violation s
      | v # vs \<Rightarrow>
          (case fs of
             [] \<Rightarrow>
               s\<lparr> cache := (cache s)(node_id (frame_node f) \<mapsto> v),
                  stale := stale s - {node_id (frame_node f)},
                  frames := [],
                  status := Terminated (terminal_of v),
                  committed := committed s @ [v] \<rparr>
           | parent # ps \<Rightarrow>
               s\<lparr> cache := (cache s)(node_id (frame_node f) \<mapsto> v),
                  stale := stale s - {node_id (frame_node f)},
                  frames := push_value v parent # ps \<rparr>))"

definition step :: "engine \<Rightarrow> engine" where
  \<comment> \<open>Modelled from the spec: one tick of the Evaluator (section 4.2); an abort request is
      honoured at the step boundary and commits no Value (section 5)\<close>
  "step s =
     (if status s \<noteq> Running then s
      else if abort_requested s then s\<lparr> frames := [], status := Terminated Aborted \<rparr>
      else
        (case frames s of
           [] \<Rightarrow> violation s
         | f # fs \<Rightarrow>
             if cursor f < length (frame_steps f)
             then execute (frame_steps f ! cursor f) f fs (s\<lparr> steps_taken := steps_taken s + 1 \<rparr>)
             else violation s))"

fun run :: "nat \<Rightarrow> engine \<Rightarrow> engine" where
  \<comment> \<open>Modelled from the spec: \<^verbatim>\<open>run\<close> with what is left of the step budget (section 4.2); a
      pass that is still running when the budget is used up ends in \<^verbatim>\<open>BudgetExceeded\<close> and
      its root Value is the NonTermination exception value (section 7)\<close>
  "run 0 s =
     (if status s = Running
      then s\<lparr> frames := [], status := Terminated BudgetExceeded,
              committed := committed s @ [ExceptionValue NonTermination] \<rparr>
      else s)"
| "run (Suc n) s = (if status s = Running then run n (step s) else s)"

subsection \<open>The Stream Registry and the Reactive Scheduler\<close>

text \<open>
  Modelled from the spec: the Stream Registry and the Reactive Scheduler of section 4.3 and
  the interface of section 6. An event that arrives is enqueued; the events of the queue are
  recorded, in the order of their arrival, when the next pass is opened, and the snapshot of
  the pass is taken then, once (section 5).
\<close>

definition ancestors :: "node \<Rightarrow> node_id \<Rightarrow> node_id list" where
  \<comment> \<open>Modelled from the spec: the node with the id \<open>i\<close> and its ancestors up to the root\<close>
  "ancestors root i =
     map node_id (filter (\<lambda>m. i \<in> set (map node_id (subnodes m))) (subnodes root))"

definition record_event :: "stream_name \<Rightarrow> val \<Rightarrow> engine \<Rightarrow> engine" where
  \<comment> \<open>Modelled from the spec: \<^verbatim>\<open>record(streamName, value)\<close> appends to the history and marks
      every subscribing node and its ancestors stale (section 4.3)\<close>
  "record_event name v s =
     s\<lparr> history := (history s)(name := history s name @ [v]),
        stale := stale s \<union> set (concat (map (ancestors (program s)) (subscribers s name))) \<rparr>"

definition version :: "engine \<Rightarrow> stream_name \<Rightarrow> nat" where
  \<comment> \<open>Modelled from the spec: the version of a stream, bumped by every recorded event\<close>
  "version s name = length (history s name)"

fun latest :: "val list \<Rightarrow> val option" where
  \<comment> \<open>Modelled from the spec: the latest pointer of a stream's history (section 3)\<close>
  "latest [] = None"
| "latest (v # vs) = Some (last (v # vs))"

definition snapshotAll :: "engine \<Rightarrow> stream_name \<rightharpoonup> val" where
  \<comment> \<open>Modelled from the spec: \<^verbatim>\<open>snapshotAll() -> Map<streamName, Value>\<close> freezes the latest
      values for one pass (section 4.3)\<close>
  "snapshotAll s = (\<lambda>name. latest (history s name))"

definition addStreamEvent :: "stream_name \<Rightarrow> val \<Rightarrow> engine \<Rightarrow> engine" where
  \<comment> \<open>Modelled from the spec: \<^verbatim>\<open>addStreamEvent(streamName, value)\<close> enqueues the event
      (sections 5 and 6)\<close>
  "addStreamEvent name v s = s\<lparr> queue := queue s @ [(name, v)] \<rparr>"

fun record_all :: "(stream_name \<times> val) list \<Rightarrow> engine \<Rightarrow> engine" where
  \<comment> \<open>Modelled from the spec: the queued events are applied to the histories in the order
      of their emission (section 5)\<close>
  "record_all [] s = s"
| "record_all ((name, v) # events) s = record_all events (record_event name v s)"

definition open_pass :: "engine \<Rightarrow> engine" where
  \<comment> \<open>Modelled from the spec: the Scheduler opens a pass (sections 2 and 4.3): the queued
      events are recorded, the snapshot is taken, and the walk starts at the root, which is
      entered unless its whole tree can be reused\<close>
  "open_pass s =
     (let recorded = (record_all (queue s) s)\<lparr> queue := [] \<rparr>;
          opened = recorded\<lparr> snapshot := snapshotAll recorded, steps_taken := 0, frames := [] \<rparr>
      in case reusable opened (program opened) of
           Some v \<Rightarrow> opened\<lparr> status := Terminated (terminal_of v), committed := committed opened @ [v] \<rparr>
         | None \<Rightarrow> enter (program opened) (opened\<lparr> status := Running \<rparr>))"

definition evaluate :: "engine \<Rightarrow> engine" where
  \<comment> \<open>Modelled from the spec: \<^verbatim>\<open>evaluate()\<close> runs one pass to a terminal state within the
      step budget; at most one pass is active at a time (sections 5 and 6)\<close>
  "evaluate s = (if status s = Running then s else run (budget s) (open_pass s))"

definition getLatestValue :: "engine \<Rightarrow> node \<Rightarrow> val option" where
  \<comment> \<open>Modelled from the spec: \<^verbatim>\<open>getLatestValue(node) -> Value | absent\<close> (section 6)\<close>
  "getLatestValue s n = cache s (node_id n)"

definition new_engine ::
  "node \<Rightarrow> nat \<Rightarrow> (stream_name \<Rightarrow> val) \<Rightarrow> (stream_name \<Rightarrow> val list) \<Rightarrow> engine"
where
  \<comment> \<open>Modelled from the spec: the engine at program start, with the streams created and
      nothing evaluated yet (section 3, lifecycles)\<close>
  "new_engine root n dflt initial =
     \<lparr> program = root, budget = n, defaults = dflt, history = initial, queue = [],
       subscribers = (\<lambda>name. []), cache = Map.empty, stale = {}, executions = (\<lambda>i. 0),
       frames = [], snapshot = Map.empty, status = Idle, steps_taken = 0,
       abort_requested = False, committed = [] \<rparr>"

subsection \<open>Invariants of the engine\<close>

text \<open>
  The predicates that the proofs about the engine use: what a step of a pass leaves as it
  is, where the steps that evaluate a child stand in a generated sequence, the frames that
  the Evaluator can reach, and the bound on the steps that a node takes.
\<close>

definition same_pass :: "engine \<Rightarrow> engine \<Rightarrow> bool" where
  "same_pass s s' =
     (program s' = program s \<and> budget s' = budget s \<and> defaults s' = defaults s
      \<and> history s' = history s \<and> queue s' = queue s \<and> snapshot s' = snapshot s
      \<and> abort_requested s' = abort_requested s)"






definition in_pass :: "status \<Rightarrow> bool" where
  "in_pass x = (x = Running \<or> (\<exists>t. x = Terminated t) \<or> x = InternalInvariantViolation)"

fun cost :: "node \<Rightarrow> nat" where
  \<comment> \<open>a bound on the steps of a node: two for a leaf, and for a chain two for itself, the
      cost of each operand and two for each operator\<close>
  "cost (Literal i v) = 2"
| "cost (StreamRead i name) = 2"
| "cost (BinaryOperation i first rest) =
     2 + cost first + sum_list (map (\<lambda>(op, n). 2 + cost n) rest)"

definition correct_cache :: "engine \<Rightarrow> bool" where
  "correct_cache s =
     (\<forall>m \<in> set (subnodes (program s)). \<forall>v.
        cache s (node_id m) = Some v \<longrightarrow> v = value_of (snapshot s) (defaults s) m)"

definition ready :: "engine \<Rightarrow> bool" where
  "ready s =
     (status s = Running \<and> \<not> abort_requested s \<and> correct_cache s
      \<and> distinct (map node_id (subnodes (program s))))"

definition leads :: "engine \<Rightarrow> nat \<Rightarrow> frame list \<Rightarrow> bool" where
  "leads s n fr = (frames ((step ^^ n) s) = fr \<and> ready ((step ^^ n) s))"

definition done_frame :: "node \<Rightarrow> val \<Rightarrow> frame" where
  "done_frame c v =
     \<lparr> frame_node = c, frame_steps = generate c, cursor = length (generate c) - 1,
       value_stack = [v] \<rparr>"

definition node_ok :: "node \<Rightarrow> bool" where
  "node_ok c =
     (\<forall>s fs. ready s \<longrightarrow> c \<in> set (subnodes (program s)) \<longrightarrow> frames s = new_frame c # fs \<longrightarrow>
        (\<exists>n < cost c. leads s n (done_frame c (value_of (snapshot s) (defaults s) c) # fs)))"

subsection \<open>The programs of the scenarios\<close>

definition two_plus_three_times_two :: node where
  \<comment> \<open>Modelled from the spec: the operator chain \<^verbatim>\<open>2 + 3 \<times> 2\<close> of section 8\<close>
  "two_plus_three_times_two =
     BinaryOperation 0 (Literal 1 (NumberValue 2))
       [(Plus, Literal 2 (NumberValue 3)), (Times, Literal 3 (NumberValue 2))]"




section \<open>The concept index (ConceptIndex.make)\<close>

text \<open>
  \<^verbatim>\<open>ConceptIndex.make(project, translations)\<close> gathers the concepts of a project: one per
  structure definition, function definition and bind of its sources, the default node,
  native and output concepts, and one \<^verbatim>\<open>StreamConcept\<close> for each stream definition it
  lists. The constructor then adds the sub-concepts of each.
\<close>

type_synonym LanguageCode = string

record Translation =
  language :: LanguageCode

text \<open>
  The six stream definitions that \<^verbatim>\<open>ConceptIndex.ts\<close> imports, by the names it imports
  them under; \<open>OtherStreamDefinition\<close> stands for any other instance of the class
  \<^verbatim>\<open>StreamDefinition\<close>.
\<close>

datatype StreamDefinition =
    TimeDefinition
  | KeyboardDefinition
  | MousePositionDefinition
  | MouseButtonDefinition
  | RandomDefinition
  | MicrophoneDefinition
  | OtherStreamDefinition string

text \<open>
  The nodes of a source, as far as \<^verbatim>\<open>make\<close> tells them apart (\<^verbatim>\<open>instanceof\<close>); the number is
  the node's identity.
\<close>

datatype Node =
    StructureDefinition nat
  | FunctionDefinition nat
  | Bind nat
  | OtherNode nat

record Source =
  nodes :: "Node list"
  statements :: "Node list"

record Project =
  main :: Source
  supplements :: "Source list"

text \<open>
  The concept classes that \<^verbatim>\<open>make\<close> constructs, with the arguments it passes, and
  \<open>DefaultConcept\<close> for a concept of any other class (the node, native and output
  concepts come from \<^verbatim>\<open>DefaultConcepts\<close>, which is not in the sources). The class
  \<^verbatim>\<open>Context\<close> is not in the sources either and is the type parameter \<open>'c\<close>.
\<close>

datatype 'c Concept =
    StructureConcept Node "LanguageCode list" 'c
  | FunctionConcept Node "LanguageCode list" 'c
  | BindConcept Node "LanguageCode list" 'c
  | StreamConcept StreamDefinition "LanguageCode list" 'c
  | DefaultConcept nat

fun isStructureDefinition :: "Node \<Rightarrow> bool" where
  "isStructureDefinition (StructureDefinition _) = True"
| "isStructureDefinition _ = False"

fun isFunctionDefinition :: "Node \<Rightarrow> bool" where
  "isFunctionDefinition (FunctionDefinition _) = True"
| "isFunctionDefinition _ = False"

fun isBind :: "Node \<Rightarrow> bool" where
  "isBind (Bind _) = True"
| "isBind _ = False"

fun isStreamConcept :: "'c Concept \<Rightarrow> bool" where
  "isStreamConcept (StreamConcept _ _ _) = True"
| "isStreamConcept _ = False"

fun getSubConcepts :: "('c Concept \<Rightarrow> 'c Concept list) \<Rightarrow> 'c Concept \<Rightarrow> 'c Concept list" where
  \<comment> \<open>\<^verbatim>\<open>StreamConcept.getSubConcepts\<close> returns the empty set; the method of the other
      classes is the parameter\<close>
  "getSubConcepts sub (StreamConcept stream languages context) = []"
| "getSubConcepts sub concept = sub concept"

record 'c ConceptIndex =
  concepts :: "'c Concept list"
  primaryConcepts :: "'c Concept list"
  subConcepts :: "('c Concept \<times> 'c Concept list) list"
  index_translations :: "Translation list"

definition ConceptIndex_new ::
  "('c Concept \<Rightarrow> 'c Concept list) \<Rightarrow> 'c Concept list \<Rightarrow> Translation list \<Rightarrow> 'c ConceptIndex"
where
  "ConceptIndex_new sub cs ts =
     \<lparr> concepts = cs @ concat (map (getSubConcepts sub) cs),
       primaryConcepts = cs,
       subConcepts = map (\<lambda>primary. (primary, getSubConcepts sub primary)) cs,
       index_translations = ts \<rparr>"

definition makeStreamConcept ::
  "LanguageCode list \<Rightarrow> 'c \<Rightarrow> StreamDefinition \<Rightarrow> 'c Concept"
where
  "makeStreamConcept languages context stream = StreamConcept stream languages context"

text \<open>
  \<^verbatim>\<open>make\<close>. Its parameters besides the project and the translations are what the
  sources do not hold: \<^verbatim>\<open>project.getContext\<close>, the \<^verbatim>\<open>getSubConcepts\<close> of the other
  concept classes, and the results of \<^verbatim>\<open>getNodeConcepts\<close>, \<^verbatim>\<open>getNativeConcepts\<close> and
  \<^verbatim>\<open>getOutputConcepts\<close>.
\<close>

definition make ::
  "(Source \<Rightarrow> 'c) \<Rightarrow> ('c Concept \<Rightarrow> 'c Concept list) \<Rightarrow>
   'c Concept list \<Rightarrow> 'c Concept list \<Rightarrow> 'c Concept list \<Rightarrow>
   Project \<Rightarrow> Translation list \<Rightarrow> 'c ConceptIndex"
where
  "make getContext sub constructs native output project ts =
     (let languages = map language ts;
          projectStructures =
            concat (map (\<lambda>source.
                map (\<lambda>def. StructureConcept def languages (getContext source))
                  (filter isStructureDefinition (nodes source)))
              (main project # supplements project));
          projectFunctions =
            concat (map (\<lambda>source.
                map (\<lambda>def. FunctionConcept def languages (getContext source))
                  (filter isFunctionDefinition (statements source)))
              (main project # supplements project));
          projectBinds =
            concat (map (\<lambda>source.
                map (\<lambda>def. BindConcept def languages (getContext source))
                  (filter isBind (statements source)))
              (main project # supplements project));
          streams =
            [ makeStreamConcept languages (getContext (main project)) TimeDefinition,
              makeStreamConcept languages (getContext (main project)) MouseButtonDefinition,
              makeStreamConcept languages (getContext (main project)) MousePositionDefinition,
              makeStreamConcept languages (getContext (main project)) KeyboardDefinition,
              makeStreamConcept languages (getContext (main project)) MicrophoneDefinition,
              makeStreamConcept languages (getContext (main project)) RandomDefinition ]
      in ConceptIndex_new sub
           (projectStructures @ projectFunctions @ projectBinds @ constructs @ native @ output
              @ streams)
           ts)"

fun stream_definitions :: "'c Concept list \<Rightarrow> StreamDefinition list" where
  "stream_definitions [] = []"
| "stream_definitions (StreamConcept d ls c # cs) = d # stream_definitions cs"
| "stream_definitions (_ # cs) = stream_definitions cs"

text \<open>The catalog as the specification lists it, and the definition each name stands for.\<close>

definition catalog :: "string list" where
  "catalog = [''time'', ''random'', ''keyboard'', ''mouse-position'', ''mouse-button'', ''microphone'']"

fun catalog_name :: "StreamDefinition \<Rightarrow> string" where
  "catalog_name TimeDefinition = ''time''"
| "catalog_name RandomDefinition = ''random''"
| "catalog_name KeyboardDefinition = ''keyboard''"
| "catalog_name MousePositionDefinition = ''mouse-position''"
| "catalog_name MouseButtonDefinition = ''mouse-button''"
| "catalog_name MicrophoneDefinition = ''microphone''"
| "catalog_name (OtherStreamDefinition name) = name"

subsection \<open>Facts about the parser\<close>

lemma template_is_Cons1 [simp]: "template_is [a] (c # cs) = (c = a)"
  by (auto simp: template_is_def)

lemma template_isnt_Cons1 [simp]: "template_isnt [a] (c # cs) = (c \<noteq> a)"
  by (auto simp: template_isnt_def)

lemma template_is_Cons2 [simp]: "template_is [a, b] (c # cs) = (c = a \<and> template_is [b] cs)"
  by (cases cs) (auto simp: template_is_def)

lemma template_is_Nil [simp]: "template_is (a # as) [] = False"
  by (simp add: template_is_def)

lemma template_isnt_Nil [simp]: "template_isnt (a # as) [] = True"
  by (simp add: template_isnt_def)

lemma read_text_plain:
  "plain Y \<Longrightarrow> c = CHR '']'' \<or> c = CHR ''|'' \<Longrightarrow> read_text acc (Y @ c # rest) = (acc @ Y, c # rest)"
  by (induction Y arbitrary: acc) (auto simp: plain_def)

lemma skip_until_found:
  "c \<notin> set pre \<Longrightarrow> skip_until [c] (pre @ c # rest) = c # rest"
  by (induction pre) auto

lemma matches_number_digits:
  "ds \<noteq> [] \<Longrightarrow> \<forall>c \<in> set ds. digit c \<Longrightarrow> ws \<noteq> [] \<Longrightarrow> \<forall>c \<in> set ws. white_space c \<Longrightarrow>
     matches_number (ds @ ws @ r) = Some ds"
  by (cases ws) (auto simp: matches_number_def takeWhile_append2 digit_def white_space_def Let_def takeWhile_eq_Nil_iff)

lemma matches_condition_spaces:
  "ws \<noteq> [] \<Longrightarrow> \<forall>c \<in> set ws. white_space c \<Longrightarrow>
     matches_condition (ws @ ''??'' @ r) = Some (ws @ ''??'')"
  by (auto simp: matches_condition_def Let_def takeWhile_append2 dropWhile_append2 white_space_def)

lemma parseTemplate_plain:
  assumes "plain Y" "c = CHR '']'' \<or> c = CHR ''|''"
  shows "parseTemplate D loc (Y @ c # rest) ins = Some (text_description D Y, c # rest)"
proof (cases Y)
  case Nil
  with assms(2) show ?thesis
    by (auto simp: text_description_def template_empty_def parseTemplate.simps parseTemplate_while.simps)
next
  case (Cons y ys)
  with assms(1) have y: "y \<noteq> CHR ''$''" "y \<noteq> CHR ''[''" "y \<noteq> CHR '']''" "y \<noteq> CHR ''|''"
    by (auto simp: plain_def)
  have it: "parseTemplate_iteration D loc ins d (Y @ c # rest) =
        Continue (Description_with D d (String Y)) (c # rest)" for d
    using y read_text_plain[OF assms, of "[]" rest]
    by (simp add: parseTemplate_iteration_def Cons)
  have stop: "parseTemplate_while D loc ins d (c # rest) = Some (d, c # rest)" for d
    using assms(2) by (subst parseTemplate_while.simps) auto
  have guard: "\<not> template_empty (Y @ c # rest) \<and> template_isnt ''|'' (Y @ c # rest)
      \<and> template_isnt '']'' (Y @ c # rest) \<and> template_isnt ''['' (Y @ c # rest)"
    using y by (simp add: Cons template_empty_def)
  have "parseTemplate_while D loc ins d (Y @ c # rest) =
          Some (Description_with D d (String Y), c # rest)" for d
    by (subst parseTemplate_while.simps) (simp add: guard it stop)
  then show ?thesis
    by (simp add: text_description_def Cons parseTemplate.simps)
qed

lemma iteration_conditional:
  assumes "ds \<noteq> []" "\<forall>c \<in> set ds. digit c" "ws \<noteq> []" "\<forall>c \<in> set ws. white_space c"
  shows "parseTemplate_iteration D loc ins d (''$'' @ ds @ ws @ ''??'' @ r) =
           Conditional (input_at ins (parseInt ds) = Boolean True \<or> input_at ins (parseInt ds) \<noteq> Undefined) r"
proof -
  from assms(1,2) have nd: "\<not> template_is ''$'' (ds @ ws @ ''??'' @ r)"
    by (cases ds) (auto simp: digit_def)
  show ?thesis
    using nd matches_number_digits[OF assms, of "''??'' @ r"] matches_condition_spaces[OF assms(3,4), of r]
    by (simp add: parseTemplate_iteration_def snd_template_next Let_def)
qed

lemma parseTemplate_while_stop:
  "t = [] \<or> template_is ''|'' t \<or> template_is '']'' t \<or> template_is ''['' t \<Longrightarrow>
     parseTemplate_while D loc ins d t = Some (d, t)"
  by (subst parseTemplate_while.simps) (auto simp: template_empty_def template_is_def template_isnt_def)

lemma skip_until_absent: "c \<notin> set t \<Longrightarrow> skip_until [c] t = []"
  by (induction t) auto

lemma parseConditional_no_bracket:
  "CHR ''['' \<notin> set r \<Longrightarrow> parseConditional D yes loc r ins = None"
  by (simp add: parseConditional.simps skip_until_absent template_empty_def)

lemma read_text_plain_end: "plain Y \<Longrightarrow> read_text acc Y = (acc @ Y, [])"
  by (induction Y arbitrary: acc) (auto simp: plain_def)

lemma parseTemplate_plain_end:
  assumes "plain Y"
  shows "parseTemplate D loc Y ins = Some (text_description D Y, [])"
proof (cases Y)
  case Nil
  then show ?thesis
    by (simp add: text_description_def parseTemplate.simps parseTemplate_while_stop)
next
  case (Cons y ys)
  with assms have y: "y \<noteq> CHR ''$''" "y \<noteq> CHR ''[''" "y \<noteq> CHR '']''" "y \<noteq> CHR ''|''"
    by (auto simp: plain_def)
  have it: "parseTemplate_iteration D loc ins d Y = Continue (Description_with D d (String Y)) []" for d
    using y read_text_plain_end[OF assms, of "[]"]
    by (simp add: parseTemplate_iteration_def Cons)
  have guard: "\<not> template_empty Y \<and> template_isnt ''|'' Y \<and> template_isnt '']'' Y \<and> template_isnt ''['' Y"
    using y by (simp add: Cons template_empty_def)
  have "parseTemplate_while D loc ins d Y = Some (Description_with D d (String Y), [])" for d
    by (subst parseTemplate_while.simps) (simp add: guard it parseTemplate_while_stop)
  then show ?thesis
    by (simp add: text_description_def Cons parseTemplate.simps)
qed

lemma parseConditional_no_bar:
  assumes "CHR ''['' \<notin> set pre" "plain Y"
  shows "parseConditional D yes loc (pre @ ''['' @ Y) ins = None"
  using skip_until_found[OF assms(1), of Y] parseTemplate_plain_end[OF assms(2), of D loc ins]
  by (simp add: parseConditional.simps template_empty_def snd_template_next)

lemma parseConditional_no_close:
  assumes "CHR ''['' \<notin> set pre" "plain Y" "plain N"
  shows "parseConditional D yes loc (pre @ ''['' @ Y @ ''|'' @ N) ins = None"
  using skip_until_found[OF assms(1), of "Y @ ''|'' @ N"]
        parseTemplate_plain[OF assms(2), of "CHR ''|''" D loc N ins]
        parseTemplate_plain_end[OF assms(3), of D loc ins]
  by (simp add: parseConditional.simps template_empty_def snd_template_next)

lemma parseConditional_unterminated:
  "unterminated r \<Longrightarrow> parseConditional D yes loc r ins = None"
  unfolding unterminated_def
proof (elim disjE exE conjE)
  assume "CHR ''['' \<notin> set r"
  then show ?thesis by (rule parseConditional_no_bracket)
next
  fix pre Y assume "r = pre @ ''['' @ Y" "CHR ''['' \<notin> set pre" "plain Y"
  then show ?thesis using parseConditional_no_bar[of pre Y D yes loc ins] by simp
next
  fix pre Y N assume "r = pre @ ''['' @ Y @ ''|'' @ N" "CHR ''['' \<notin> set pre" "plain Y" "plain N"
  then show ?thesis using parseConditional_no_close[of pre Y N D yes loc ins] by simp
qed

lemma parseTemplate_unterminated:
  assumes "ds \<noteq> []" "\<forall>c \<in> set ds. digit c" "ws \<noteq> []" "\<forall>c \<in> set ws. white_space c"
      and "unterminated r"
  shows "parseTemplate D loc (''$'' @ ds @ ws @ ''??'' @ r) ins = None"
proof -
  let ?t = "''$'' @ ds @ ws @ ''??'' @ r"
  have guard: "\<not> template_empty ?t \<and> template_isnt ''|'' ?t \<and> template_isnt '']'' ?t \<and> template_isnt ''['' ?t"
    by (simp add: template_empty_def)
  show ?thesis
    unfolding parseTemplate.simps
    apply (subst parseTemplate_while.simps)
    apply (simp only: guard if_True iteration_conditional[OF assms(1-4)] iteration.case
             parseConditional_unterminated[OF assms(5)] option.case)
    apply simp
    done
qed

lemma digit_char: "k < 10 \<Longrightarrow> digit (char_of (48 + k :: nat)) \<and> of_char (char_of (48 + k)) = 48 + k"
  by (simp add: digit_def Let_def)

lemma decimal_digits: "decimal n \<noteq> [] \<and> (\<forall>c \<in> set (decimal n). digit c)"
proof (induction n rule: decimal.induct)
  case (1 n)
  show ?case
  proof (cases "n < 10")
    case True
    then show ?thesis using digit_char[of n] by (subst (1 2) decimal.simps) simp
  next
    case False
    with 1 digit_char[of "n mod 10"] show ?thesis by (subst (1 2) decimal.simps) simp
  qed
qed

lemma parseInt_snoc: "parseInt (ds @ [c]) = 10 * parseInt ds + ((of_char c :: nat) - 48)"
  by (simp add: parseInt_def)

lemma parseInt_decimal: "parseInt (decimal n) = n"
proof (induction n rule: decimal.induct)
  case (1 n)
  show ?case
  proof (cases "n < 10")
    case True
    then show ?thesis using digit_char[of n] by (subst decimal.simps) (simp add: parseInt_def)
  next
    case False
    with 1 digit_char[of "n mod 10"] show ?thesis
      by (subst decimal.simps) (simp add: parseInt_snoc)
  qed
qed

lemma parseInt_zeros: "parseInt (replicate z (CHR ''0'') @ ds) = parseInt ds"
proof -
  have "foldl (\<lambda>n c. 10 * n + ((of_char c :: nat) - 48)) 0 (replicate z (CHR ''0'')) = 0"
    by (induction z) simp_all
  then show ?thesis by (simp add: parseInt_def)
qed

lemma numeral_text_digits:
  "numeral_text z n \<noteq> [] \<and> (\<forall>c \<in> set (numeral_text z n). digit c) \<and> parseInt (numeral_text z n) = n"
  using decimal_digits[of n]
  by (auto simp: numeral_text_def parseInt_zeros parseInt_decimal digit_def)

lemma truthy_input:
  "(input_at ins n = Boolean True \<or> input_at ins n \<noteq> Undefined)
     = (1 \<le> n \<and> n \<le> length ins \<and> ins ! (n - 1) \<noteq> Undefined)"
  by (cases n) (auto simp: input_at_def)

lemma parseConditional_branches:
  assumes "CHR ''['' \<notin> set filler"
      and "parseTemplate D loc yes_text ins = Some (yd, j1 @ ''|'' @ no_text)" "CHR ''|'' \<notin> set j1"
      and "parseTemplate D loc no_text ins = Some (nd, j2 @ '']'' @ rest)" "CHR '']'' \<notin> set j2"
  shows "parseConditional D yes loc (filler @ ''['' @ yes_text) ins =
           Some (if yes then yd else nd, rest)"
  using skip_until_found[OF assms(1), of yes_text]
        skip_until_found[OF assms(3), of no_text]
        skip_until_found[OF assms(5), of rest] assms(2,4)
  by (simp add: template_empty_def snd_template_next parseConditional.simps)

lemma read_text_plain_dollar:
  "plain p \<Longrightarrow> read_text acc (p @ CHR ''$'' # rest) = (acc @ p, CHR ''$'' # rest)"
  by (induction p arbitrary: acc) (auto simp: plain_def)

lemma parseTemplate_while_text:
  assumes "plain p" "p \<noteq> []"
  shows "parseTemplate_while D loc ins d (p @ CHR ''$'' # rest) =
           parseTemplate_while D loc ins (Description_with D d (String p)) (CHR ''$'' # rest)"
proof -
  from assms obtain y ys where Cons: "p = y # ys" by (cases p) auto
  with assms(1) have y: "y \<noteq> CHR ''$''" "y \<noteq> CHR ''[''" "y \<noteq> CHR '']''" "y \<noteq> CHR ''|''"
    by (auto simp: plain_def)
  have it: "parseTemplate_iteration D loc ins d (p @ CHR ''$'' # rest) =
        Continue (Description_with D d (String p)) (CHR ''$'' # rest)"
    using y read_text_plain_dollar[OF assms(1), of "[]" rest]
    by (simp add: parseTemplate_iteration_def Cons)
  have guard: "\<not> template_empty (p @ CHR ''$'' # rest) \<and> template_isnt ''|'' (p @ CHR ''$'' # rest)
      \<and> template_isnt '']'' (p @ CHR ''$'' # rest) \<and> template_isnt ''['' (p @ CHR ''$'' # rest)"
    using y by (simp add: Cons template_empty_def)
  show ?thesis
    by (subst parseTemplate_while.simps) (simp add: guard it)
qed

lemma parseTemplate_while_conditional:
  assumes "ds \<noteq> []" "\<forall>c \<in> set ds. digit c" "ws \<noteq> []" "\<forall>c \<in> set ws. white_space c"
      and "parseConditional D
             (input_at ins (parseInt ds) = Boolean True \<or> input_at ins (parseInt ds) \<noteq> Undefined)
             loc r ins = Some (v, rest)"
  shows "parseTemplate_while D loc ins d (''$'' @ ds @ ws @ ''??'' @ r) =
           parseTemplate_while D loc ins (Description_with D d (DescriptionInput v)) rest"
proof -
  let ?t = "''$'' @ ds @ ws @ ''??'' @ r"
  have guard: "\<not> template_empty ?t \<and> template_isnt ''|'' ?t \<and> template_isnt '']'' ?t \<and> template_isnt ''['' ?t"
    by (simp add: template_empty_def)
  show ?thesis
    apply (subst parseTemplate_while.simps)
    apply (simp only: guard if_True iteration_conditional[OF assms(1-4)] iteration.case assms(5)
             option.case prod.case)
    apply simp
    done
qed

subsection \<open>Claims about the templates\<close>

text \<open>
  C9. In template parsing, a conditional \<^verbatim>\<open>$n ?? [yes | no]\<close> selects the yes branch exactly
  when input \<open>n\<close> is not \<^verbatim>\<open>undefined\<close>. The number is written as any decimal numeral of \<open>n\<close>,
  followed by white space \<open>ws\<close>, \<^verbatim>\<open>??\<close> and any text without \<^verbatim>\<open>[\<close>. The two branches are
  arbitrary templates: the yes branch parses, with the same inputs, to \<open>yes_description\<close> and
  stops before a \<^verbatim>\<open>|\<close>, the no branch parses to \<open>no_description\<close> and stops before a
  \<^verbatim>\<open>]\<close>. Then wherever the loop of \<^verbatim>\<open>parseTemplate\<close> meets the conditional, with any
  description \<open>d\<close> built so far, it adds one part and goes on with the text after the
  \<^verbatim>\<open>]\<close>: the part is \<open>yes_description\<close> when \<open>1 \<le> n \<le> length inputs\<close> and
  \<^verbatim>\<open>inputs[n - 1]\<close> is not \<^verbatim>\<open>undefined\<close>, and \<open>no_description\<close> otherwise. The same holds
  for a whole template that starts with plain text \<open>p\<close> before the conditional. In
  particular the boolean \<^verbatim>\<open>false\<close> selects the yes branch, and a number outside the
  inputs selects the no branch.
\<close>

theorem conditional_selects:
  assumes "space_text ws" "CHR ''['' \<notin> set filler" "plain p"
      and "parseTemplate D loc yes_text ins = Some (yes_description, j1 @ ''|'' @ no_text)"
      and "CHR ''|'' \<notin> set j1"
      and "parseTemplate D loc no_text ins = Some (no_description, j2 @ '']'' @ rest)"
      and "CHR '']'' \<notin> set j2"
  shows "parseTemplate_while D loc ins d
           (''$'' @ numeral_text zeros n @ ws @ ''??'' @ filler @ ''['' @ yes_text) =
         parseTemplate_while D loc ins
           (Description_with D d
              (DescriptionInput
                 (if 1 \<le> n \<and> n \<le> length ins \<and> ins ! (n - 1) \<noteq> Undefined
                  then yes_description else no_description)))
           rest
       \<and> parseTemplate D loc
           (p @ ''$'' @ numeral_text zeros n @ ws @ ''??'' @ filler @ ''['' @ yes_text) ins =
         parseTemplate_while D loc ins
           (Description_with D (text_description D p)
              (DescriptionInput
                 (if 1 \<le> n \<and> n \<le> length ins \<and> ins ! (n - 1) \<noteq> Undefined
                  then yes_description else no_description)))
           rest"
proof -
  let ?ds = "numeral_text zeros n"
  let ?yes = "1 \<le> n \<and> n \<le> length ins \<and> ins ! (n - 1) \<noteq> Undefined"
  let ?c = "''$'' @ ?ds @ ws @ ''??'' @ filler @ ''['' @ yes_text"
  from assms(1) have ws: "ws \<noteq> []" "\<forall>c \<in> set ws. white_space c"
    by (simp_all add: space_text_def list_all_iff)
  have ds: "?ds \<noteq> []" "\<forall>c \<in> set ?ds. digit c" and n: "parseInt ?ds = n"
    using numeral_text_digits[of zeros n] by blast+
  have pc: "parseConditional D
             (input_at ins (parseInt ?ds) = Boolean True \<or> input_at ins (parseInt ?ds) \<noteq> Undefined)
             loc (filler @ ''['' @ yes_text) ins = Some (if ?yes then yes_description else no_description, rest)"
    unfolding n truthy_input
    by (rule parseConditional_branches[OF assms(2,4-7)])
  have A: "parseTemplate_while D loc ins d ?c =
         parseTemplate_while D loc ins
           (Description_with D d (DescriptionInput (if ?yes then yes_description else no_description))) rest"
    for d
    using parseTemplate_while_conditional[OF ds ws pc, of d] by simp
  have B: "parseTemplate D loc (p @ ?c) ins =
         parseTemplate_while D loc ins
           (Description_with D (text_description D p)
              (DescriptionInput (if ?yes then yes_description else no_description))) rest"
  proof (cases "p = []")
    case True
    then show ?thesis using A[of "Description_new D []"]
      by (simp add: parseTemplate.simps text_description_def)
  next
    case False
    have "parseTemplate D loc (p @ ?c) ins =
            parseTemplate_while D loc ins (Description_with D (Description_new D []) (String p)) ?c"
      using parseTemplate_while_text[OF assms(3) False, of D loc ins "Description_new D []"
              "?ds @ ws @ ''??'' @ filler @ ''['' @ yes_text"]
      by (simp add: parseTemplate.simps)
    with False show ?thesis
      using A[of "Description_with D (Description_new D []) (String p)"]
      by (simp add: text_description_def)
  qed
  from A[of d] B show ?thesis by (rule conjI)
qed



theorem conditional_selects_witness:
  "space_text '' '' \<and> CHR ''['' \<notin> set '' '' \<and> plain ''I received '' \<and> plain []
   \<and> CHR ''|'' \<notin> set [] \<and> CHR '']'' \<notin> set []
   \<and> parseTemplate ListDescriptionClass example_locale ''$1 | nothing]'' [Undefined]
       = Some (Parts [Undefined, String '' ''], ''| nothing]'')
   \<and> parseTemplate ListDescriptionClass example_locale '' nothing]'' [Undefined]
       = Some (Parts [String '' nothing''], '']'')
   \<and> parseTemplate ListDescriptionClass example_locale ''I received $1 ?? [$1 | nothing]'' [Undefined]
       = Some (Parts [String ''I received '', DescriptionInput (Parts [String '' nothing''])], [])
   \<and> parseTemplate ListDescriptionClass example_locale ''$1 | nothing]'' [Boolean False]
       = Some (Parts [Boolean False, String '' ''], ''| nothing]'')
   \<and> parseTemplate ListDescriptionClass example_locale '' nothing]'' [Boolean False]
       = Some (Parts [String '' nothing''], '']'')
   \<and> parseTemplate ListDescriptionClass example_locale ''I received $1 ?? [$1 | nothing]'' [Boolean False]
       = Some (Parts [String ''I received '', DescriptionInput (Parts [Boolean False, String '' ''])], [])
   \<and> parseTemplate ListDescriptionClass example_locale ''$2 ?? [$1 | $2] | nothing]'' [String ''a'', Undefined]
       = Some (Parts [DescriptionInput (Parts [String '' '', Undefined]), String '' ''], ''| nothing]'')
   \<and> parseTemplate ListDescriptionClass example_locale '' nothing]'' [String ''a'', Undefined]
       = Some (Parts [String '' nothing''], '']'')
   \<and> parseTemplate ListDescriptionClass example_locale
         ''I received $1 ?? [$2 ?? [$1 | $2] | nothing]'' [String ''a'', Undefined]
       = Some (Parts [String ''I received '',
                      DescriptionInput
                        (Parts [DescriptionInput (Parts [String '' '', Undefined]), String '' ''])], [])
   \<and> parseTemplate ListDescriptionClass example_locale ''a|b]'' [Boolean True]
       = Some (Parts [String ''a''], ''|b]'')
   \<and> parseTemplate ListDescriptionClass example_locale ''b]'' [Boolean True]
       = Some (Parts [String ''b''], '']'')
   \<and> parseTemplate_while ListDescriptionClass example_locale [Boolean True] (Parts [String ''x''])
         ''$02 ?? [a|b]''
       = Some (Parts [String ''x'', DescriptionInput (Parts [String ''b''])], [])"
proof -
  note ev = parseTemplate.simps parseTemplate_while.simps parseConditional.simps
    parseTemplate_iteration_def template_empty_def template_is_def template_isnt_def template_next_def
    template_peek_def matches_number_def matches_condition_def matches_word_def digit_def word_char_def
    white_space_def parseInt_def input_at_def Let_def ListDescriptionClass_def example_locale_def
  note fin = parseTemplate_while_stop text_description_def ListDescriptionClass_def
  have s: "space_text '' ''" "CHR ''['' \<notin> set '' ''" "plain ''I received ''" "plain []"
    by (simp_all add: space_text_def white_space_def plain_def)
  have e: "CHR ''|'' \<notin> set []" "CHR '']'' \<notin> set []"
    by simp_all
  have num: "numeral_text 0 (Suc 0) = ''1''" "numeral_text (Suc 0) 2 = ''02''"
    by code_simp+
  have y1: "parseTemplate ListDescriptionClass example_locale ''$1 | nothing]'' [Undefined]
       = Some (Parts [Undefined, String '' ''], [] @ ''|'' @ '' nothing]'')"
    by (simp add: ev)
  have n1: "parseTemplate ListDescriptionClass example_locale '' nothing]'' ins
       = Some (Parts [String '' nothing''], [] @ '']'' @ [])" for ins
    by (simp add: ev)
  have y2: "parseTemplate ListDescriptionClass example_locale ''$1 | nothing]'' [Boolean False]
       = Some (Parts [Boolean False, String '' ''], [] @ ''|'' @ '' nothing]'')"
    by (simp add: ev)
  have y3: "parseTemplate ListDescriptionClass example_locale ''$2 ?? [$1 | $2] | nothing]''
         [String ''a'', Undefined]
       = Some (Parts [DescriptionInput (Parts [String '' '', Undefined]), String '' ''],
               [] @ ''|'' @ '' nothing]'')"
    by (simp add: ev)
  have y4: "parseTemplate ListDescriptionClass example_locale ''a|b]'' [Boolean True]
       = Some (Parts [String ''a''], [] @ ''|'' @ ''b]'')"
    by (simp add: ev)
  have n4: "parseTemplate ListDescriptionClass example_locale ''b]'' [Boolean True]
       = Some (Parts [String ''b''], [] @ '']'' @ [])"
    by (simp add: ev)
  have r1: "parseTemplate ListDescriptionClass example_locale ''I received $1 ?? [$1 | nothing]'' [Undefined]
       = Some (Parts [String ''I received '', DescriptionInput (Parts [String '' nothing''])], [])"
    using conditional_selects[OF s(1,2,3) y1 e(1) n1 e(2), of undefined 0 1, THEN conjunct2]
    by (simp add: num fin)
  have r2: "parseTemplate ListDescriptionClass example_locale ''I received $1 ?? [$1 | nothing]'' [Boolean False]
       = Some (Parts [String ''I received '', DescriptionInput (Parts [Boolean False, String '' ''])], [])"
    using conditional_selects[OF s(1,2,3) y2 e(1) n1 e(2), of undefined 0 1, THEN conjunct2]
    by (simp add: num fin)
  have r3: "parseTemplate ListDescriptionClass example_locale
         ''I received $1 ?? [$2 ?? [$1 | $2] | nothing]'' [String ''a'', Undefined]
       = Some (Parts [String ''I received '',
                      DescriptionInput
                        (Parts [DescriptionInput (Parts [String '' '', Undefined]), String '' ''])], [])"
    using conditional_selects[OF s(1,2,3) y3 e(1) n1 e(2), of undefined 0 1, THEN conjunct2]
    by (simp add: num fin)
  have r4: "parseTemplate_while ListDescriptionClass example_locale [Boolean True] (Parts [String ''x''])
         ''$02 ?? [a|b]''
       = Some (Parts [String ''x'', DescriptionInput (Parts [String ''b''])], [])"
    using conditional_selects[OF s(1,2,4) y4 e(1) n4 e(2), of "Parts [String ''x'']" 1 2, THEN conjunct1]
    by (simp add: num fin)
  from s e y1 n1[of "[Undefined]"] r1 y2 n1[of "[Boolean False]"] r2
       y3 n1[of "[String ''a'', Undefined]"] r3 y4 n4 r4
  show ?thesis by simp
qed

text \<open>
  C10. \<^verbatim>\<open>concretize\<close> is total and never returns \<^verbatim>\<open>undefined\<close>: \<open>parseTemplate\<close> and
  \<open>parseConditional\<close> terminate on every template (their termination is proved above), an
  empty or \<^verbatim>\<open>$?\<close> template gives the locale's unwritten placeholder, any other template
  gives the parsed description, or \<^verbatim>\<open>-\<close> when the parse fails, and an unterminated
  conditional is such a failure.
\<close>

theorem concretize_total:
  "concretize D loc [] ins = Description_as D (unwritten loc)
   \<and> concretize D loc ''$?'' ins = Description_as D (unwritten loc)
   \<and> (t \<noteq> [] \<and> t \<noteq> ''$?'' \<longrightarrow>
        concretize D loc t ins =
          (case parseTemplate D loc t ins of
             Some (description, rest) \<Rightarrow> description
           | None \<Rightarrow> Description_as D ''-''))
   \<and> (number_text ds \<and> space_text ws \<and> unterminated r \<longrightarrow>
        concretize D loc (''$'' @ ds @ ws @ ''??'' @ r) ins = Description_as D ''-'')"
proof (intro conjI impI)
  show "concretize D loc [] ins = Description_as D (unwritten loc)"
    by (simp add: concretize_def concretizeOrUndefined_def)
  show "concretize D loc ''$?'' ins = Description_as D (unwritten loc)"
    by (simp add: concretize_def concretizeOrUndefined_def)
next
  assume "t \<noteq> [] \<and> t \<noteq> ''$?''"
  then show "concretize D loc t ins =
          (case parseTemplate D loc t ins of
             Some (description, rest) \<Rightarrow> description
           | None \<Rightarrow> Description_as D ''-'')"
    by (simp add: concretize_def concretizeOrUndefined_def split: option.split)
next
  assume "number_text ds \<and> space_text ws \<and> unterminated r"
  then have a: "ds \<noteq> []" "\<forall>c \<in> set ds. digit c" "ws \<noteq> []" "\<forall>c \<in> set ws. white_space c"
    "unterminated r"
    by (simp_all add: number_text_def space_text_def list_all_iff)
  then have "parseTemplate D loc (''$'' @ ds @ ws @ ''??'' @ r) ins = None"
    by (rule parseTemplate_unterminated)
  moreover from a have "''$'' @ ds @ ws @ ''??'' @ r \<noteq> ''$?''"
    by (cases ds) (auto simp: digit_def)
  ultimately show "concretize D loc (''$'' @ ds @ ws @ ''??'' @ r) ins = Description_as D ''-''"
    by (simp add: concretize_def concretizeOrUndefined_def)
qed

theorem concretize_total_witness:
  "''$1 ?? [a'' \<noteq> [] \<and> ''$1 ?? [a'' \<noteq> ''$?''
   \<and> number_text ''1'' \<and> space_text '' ''
   \<and> unterminated '' [a''
   \<and> concretize ListDescriptionClass example_locale ''$1 ?? [a'' [Boolean True] = Parts [String ''-'']
   \<and> concretize ListDescriptionClass example_locale [] [Boolean True] = Parts [String ''TBD'']"
proof -
  have u: "unterminated '' [a''"
    unfolding unterminated_def
    by (rule disjI2, rule disjI1, rule exI[of _ "'' ''"], rule exI[of _ "''a''"]) (simp add: plain_def)
  have h: "number_text ''1'' \<and> space_text '' ''"
    by (simp add: number_text_def space_text_def digit_def white_space_def)
  note T = concretize_total[of ListDescriptionClass example_locale "[Boolean True]" "''$1 ?? [a''"
              "''1''" "'' ''" "'' [a''"]
  from T have c1: "concretize ListDescriptionClass example_locale [] [Boolean True] =
      Description_as ListDescriptionClass (unwritten example_locale)" by (rule conjunct1)
  from T u h have "concretize ListDescriptionClass example_locale
      (''$'' @ ''1'' @ '' '' @ ''??'' @ '' [a'') [Boolean True] = Description_as ListDescriptionClass ''-''"
    by blast
  then have c4: "concretize ListDescriptionClass example_locale ''$1 ?? [a'' [Boolean True] =
      Description_as ListDescriptionClass ''-''" by simp
  have "Description_as ListDescriptionClass ''-'' = Parts [String ''-'']"
       "Description_as ListDescriptionClass (unwritten example_locale) = Parts [String ''TBD'']"
    by (simp_all add: ListDescriptionClass_def example_locale_def)
  with c1 c4 u h show ?thesis by simp
qed

subsection \<open>Facts about the concept index\<close>

lemma stream_definitions_append:
  "stream_definitions (xs @ ys) = stream_definitions xs @ stream_definitions ys"
  by (induction xs rule: stream_definitions.induct) auto

lemma stream_definitions_none:
  "list_all (\<lambda>c. \<not> isStreamConcept c) cs \<Longrightarrow> stream_definitions cs = []"
  by (induction cs rule: stream_definitions.induct) auto

lemma stream_definitions_concat_none:
  "(\<And>x. x \<in> set xs \<Longrightarrow> stream_definitions (f x) = []) \<Longrightarrow> stream_definitions (concat (map f xs)) = []"
  by (induction xs) (auto simp: stream_definitions_append)

lemma stream_definitions_map_none:
  "(\<And>x. \<not> isStreamConcept (f x)) \<Longrightarrow> stream_definitions (map f xs) = []"
  by (rule stream_definitions_none) (simp add: list_all_iff)

lemma sub_none:
  assumes "\<And>c. list_all (\<lambda>c. \<not> isStreamConcept c) (sub c)"
  shows "stream_definitions (concat (map (getSubConcepts sub) cs)) = []"
proof (rule stream_definitions_concat_none)
  fix x show "stream_definitions (getSubConcepts sub x) = []"
    using assms by (cases x) (simp_all add: stream_definitions_none)
qed

lemma stream_definitions_index:
  assumes "\<And>c. list_all (\<lambda>c. \<not> isStreamConcept c) (sub c)"
  shows "stream_definitions (concepts (ConceptIndex_new sub cs ts)) = stream_definitions cs"
  by (simp add: ConceptIndex_new_def stream_definitions_append sub_none[OF assms])

text \<open>
  C8. The stream catalog that \<^verbatim>\<open>ConceptIndex.make\<close> builds has exactly six streams: time,
  random, keyboard, mouse-position, mouse-button and microphone. Where the default concepts
  and the sub-concepts of the other classes hold no \<^verbatim>\<open>StreamConcept\<close>, the stream concepts
  of the index are those of the six definitions, each once, and their names are the names
  of the catalog.
\<close>

theorem make_streams:
  assumes "list_all (\<lambda>c. \<not> isStreamConcept c) (constructs @ native @ output)"
      and "\<And>c. list_all (\<lambda>c. \<not> isStreamConcept c) (sub c)"
  shows "stream_definitions (concepts (make getContext sub constructs native output project ts)) =
           [TimeDefinition, MouseButtonDefinition, MousePositionDefinition,
            KeyboardDefinition, MicrophoneDefinition, RandomDefinition]
       \<and> distinct (stream_definitions
            (concepts (make getContext sub constructs native output project ts)))
       \<and> length (stream_definitions
            (concepts (make getContext sub constructs native output project ts))) = 6
       \<and> set (map catalog_name (stream_definitions
            (concepts (make getContext sub constructs native output project ts)))) = set catalog"
proof -
  from assms(1) have d: "stream_definitions constructs = []" "stream_definitions native = []"
    "stream_definitions output = []"
    by (simp_all add: stream_definitions_none)
  have 1: "stream_definitions (concepts (make getContext sub constructs native output project ts)) =
           [TimeDefinition, MouseButtonDefinition, MousePositionDefinition,
            KeyboardDefinition, MicrophoneDefinition, RandomDefinition]"
    unfolding make_def Let_def
    by (simp only: stream_definitions_index[OF assms(2)])
       (simp add: stream_definitions_append d makeStreamConcept_def
          stream_definitions_concat_none stream_definitions_map_none)
  show ?thesis
    unfolding 1 catalog_def by auto
qed

theorem make_streams_witness:
  "list_all (\<lambda>c. \<not> isStreamConcept c) ([DefaultConcept 0] @ [DefaultConcept 1] @ [DefaultConcept 2])
   \<and> list_all (\<lambda>c. \<not> isStreamConcept c) ([] :: Source Concept list)
   \<and> stream_definitions (concepts (make (\<lambda>source. source) (\<lambda>c. [])
         [DefaultConcept 0] [DefaultConcept 1] [DefaultConcept 2]
         \<lparr> main = \<lparr> nodes = [StructureDefinition 0, Bind 1], statements = [Bind 1] \<rparr>,
           supplements = [] \<rparr>
         [\<lparr> language = ''en'' \<rparr>])) =
       [TimeDefinition, MouseButtonDefinition, MousePositionDefinition,
        KeyboardDefinition, MicrophoneDefinition, RandomDefinition]"
proof -
  have h: "list_all (\<lambda>c. \<not> isStreamConcept c)
             ([DefaultConcept 0] @ [DefaultConcept 1] @ [DefaultConcept 2 :: Source Concept])"
    by simp
  have s: "\<And>c. list_all (\<lambda>c. \<not> isStreamConcept c) ((\<lambda>c :: Source Concept. []) c)"
    by simp
  from make_streams[OF h s] h show ?thesis by simp
qed

section \<open>Facts about the evaluation engine\<close>

subsection \<open>Single steps\<close>

lemma step_not_running: "status s \<noteq> Running \<Longrightarrow> step s = s"
  by (simp add: step_def)

lemma run_not_running: "status s \<noteq> Running \<Longrightarrow> run n s = s"
  by (cases n) simp_all

lemma run_Suc: "run (Suc n) s = run n (step s)"
  by (simp add: step_not_running run_not_running)

lemma run_funpow: "run n s = run 0 ((step ^^ n) s)"
  by (induction n arbitrary: s) (simp_all add: run_Suc funpow_swap1 del: run.simps)

lemma run_add: "run (n + k) s = run k ((step ^^ n) s)"
  by (induction n arbitrary: s) (simp_all add: run_Suc funpow_swap1 del: run.simps)

text \<open>What a step leaves as it is.\<close>

lemma same_pass_refl: "same_pass s s"
  by (simp add: same_pass_def)

lemma same_pass_trans: "same_pass s s' \<Longrightarrow> same_pass s' s'' \<Longrightarrow> same_pass s s''"
  by (simp add: same_pass_def)

lemma same_pass_execute:
  "same_pass s (execute x f fs s)"
  by (cases x)
     (auto simp: same_pass_def violation_def enter_def split: option.splits list.splits)

lemma same_pass_step: "same_pass s (step s)"
proof -
  have "same_pass (s\<lparr>steps_taken := steps_taken s + 1\<rparr>) (execute x f fs (s\<lparr>steps_taken := steps_taken s + 1\<rparr>))"
    for x f fs by (rule same_pass_execute)
  then show ?thesis
    by (auto simp: step_def same_pass_def violation_def split: list.splits)
qed

lemma same_pass_funpow: "same_pass s ((step ^^ n) s)"
  by (induction n) (auto intro: same_pass_refl same_pass_trans same_pass_step)







subsection \<open>The generated steps\<close>

lemma length_operation_steps: "length (operation_steps k ops) = 2 * length ops"
  by (induction k ops rule: operation_steps.induct) simp_all

lemma operation_steps_nth:
  "j < 2 * length ops \<Longrightarrow>
     operation_steps k ops ! j =
       (if even j then EvaluateChild (k + j div 2) else ApplyOperation (ops ! (j div 2)))"
proof (induction k ops arbitrary: j rule: operation_steps.induct)
  case (1 k)
  then show ?case by simp
next
  case (2 k op ops)
  show ?case
  proof (cases j)
    case 0
    then show ?thesis by simp
  next
    case (Suc j1)
    show ?thesis
    proof (cases j1)
      case 0
      with Suc show ?thesis by simp
    next
      case (Suc j2)
      with \<open>j = Suc j1\<close> 2 show ?thesis by simp
    qed
  qed
qed

lemma length_generate:
  "length (generate n) = (case n of BinaryOperation i first rest \<Rightarrow> 2 * length rest + 2 | _ \<Rightarrow> 2)"
  by (cases n) (simp_all add: length_operation_steps)

lemma generate_first:
  "generate (BinaryOperation i first rest) ! 0 = EvaluateChild 0"
  by simp

lemma generate_child:
  "j < length rest \<Longrightarrow> generate (BinaryOperation i first rest) ! (2 * j + 1) = EvaluateChild (Suc j)"
  by (simp add: nth_append length_operation_steps operation_steps_nth)

lemma generate_apply:
  "j < length rest \<Longrightarrow>
     generate (BinaryOperation i first rest) ! (2 * j + 2) = ApplyOperation (fst (rest ! j))"
  by (simp add: nth_append length_operation_steps operation_steps_nth)

lemma generate_finish:
  "generate (BinaryOperation i first rest) ! (2 * length rest + 1) = Finish"
  by (simp add: nth_append length_operation_steps)

lemma children_nth:
  "j < length rest \<Longrightarrow> children (BinaryOperation i first rest) ! Suc j = snd (rest ! j)"
  by simp


subsection \<open>Subtrees\<close>

lemma self_subnode: "n \<in> set (subnodes n)"
  by (cases n) simp_all

lemma child_subnode: "c \<in> set (children n) \<Longrightarrow> c \<in> set (subnodes n)"
proof (cases n)
  case (BinaryOperation i first rest)
  assume "c \<in> set (children n)"
  with BinaryOperation have "c = first \<or> c \<in> snd ` set rest" by auto
  then show ?thesis
  proof
    assume "c = first"
    with BinaryOperation show ?thesis by (simp add: self_subnode)
  next
    assume "c \<in> snd ` set rest"
    then obtain op where "(op, c) \<in> set rest" by auto
    with BinaryOperation show ?thesis
      by (auto intro!: bexI[of _ "(op, c)"] simp: self_subnode)
  qed
qed simp_all

lemma subnodes_trans:
  "m \<in> set (subnodes n) \<Longrightarrow> x \<in> set (subnodes m) \<Longrightarrow> x \<in> set (subnodes n)"
proof (induction n rule: subnodes.induct)
  case (3 i first rest)
  from 3(3) consider "m = BinaryOperation i first rest" | "m \<in> set (subnodes first)"
    | op n where "(op, n) \<in> set rest" "m \<in> set (subnodes n)"
    by auto
  then show ?case
  proof cases
    case 1
    with 3(4) show ?thesis by simp
  next
    case 2
    from 3(1)[OF 2 3(4)] show ?thesis by simp
  next
    case (3 op n)
    from "3.IH"(2)[OF 3(1) refl 3(2) "3.prems"(2)] 3(1) show ?thesis
      by (auto intro!: bexI[of _ "(op, n)"])
  qed
qed simp_all

lemma children_subnodes:
  "n \<in> set (subnodes P) \<Longrightarrow> k < length (children n) \<Longrightarrow> children n ! k \<in> set (subnodes P)"
  by (meson child_subnode nth_mem subnodes_trans)

subsection \<open>Well-formed frames\<close>




lemma step_at:
  "status s = Running \<Longrightarrow> \<not> abort_requested s \<Longrightarrow> frames s = f # fs \<Longrightarrow>
   cursor f < length (frame_steps f) \<Longrightarrow>
     step s = execute (frame_steps f ! cursor f) f fs (s\<lparr> steps_taken := steps_taken s + 1 \<rparr>)"
  by (simp add: step_def)





subsection \<open>Opening a pass\<close>






lemma open_pass_status:
  "status (open_pass s) = Running \<or> (\<exists>t. status (open_pass s) = Terminated t)"
  by (simp add: open_pass_def Let_def enter_def split: option.splits)



subsection \<open>The status of a pass\<close>

lemma status_execute:
  "in_pass (status s) \<Longrightarrow> in_pass (status (execute x f fs s))"
  by (cases x) (auto simp: in_pass_def violation_def enter_def split: option.splits list.splits)

lemma status_step: "in_pass (status s) \<Longrightarrow> in_pass (status (step s))"
proof -
  assume a: "in_pass (status s)"
  then have "in_pass (status (s\<lparr>steps_taken := steps_taken s + 1\<rparr>))" by simp
  then have "in_pass (status (execute x f fs (s\<lparr>steps_taken := steps_taken s + 1\<rparr>)))" for x f fs
    by (rule status_execute)
  with a show ?thesis
    by (auto simp: step_def violation_def in_pass_def split: list.splits)
qed

lemma status_funpow: "in_pass (status s) \<Longrightarrow> in_pass (status ((step ^^ n) s))"
  by (induction n) (simp_all add: status_step)

lemma status_run0: "in_pass (status s) \<Longrightarrow> in_pass (status (run 0 s)) \<and> status (run 0 s) \<noteq> Running"
  by (auto simp: in_pass_def)

lemma status_run:
  assumes "in_pass (status s)"
  shows "in_pass (status (run n s))" "status (run n s) \<noteq> Running"
  using status_run0[OF status_funpow[OF assms, of n]]
  by (subst run_funpow, simp)+

text \<open>Once a pass has stopped it stays as it is; while it runs it commits nothing.\<close>

lemma funpow_not_running: "status s \<noteq> Running \<Longrightarrow> (step ^^ n) s = s"
  by (induction n) (simp_all add: step_not_running)

lemma running_before:
  "status ((step ^^ n) s) = Running \<Longrightarrow> m \<le> n \<Longrightarrow> status ((step ^^ m) s) = Running"
proof (rule ccontr)
  assume r: "status ((step ^^ n) s) = Running" and le: "m \<le> n"
    and nr: "status ((step ^^ m) s) \<noteq> Running"
  from le obtain k where n: "n = k + m" by (metis add.commute le_Suc_ex)
  have "(step ^^ n) s = (step ^^ k) ((step ^^ m) s)" by (simp add: n funpow_add)
  also have "\<dots> = (step ^^ m) s" by (rule funpow_not_running[OF nr])
  finally show False using r nr by simp
qed

lemma committed_execute:
  "status (execute x f fs s) = Running \<Longrightarrow> committed (execute x f fs s) = committed s"
  by (cases x) (auto simp: violation_def enter_def split: option.splits list.splits)

lemma committed_step: "status (step s) = Running \<Longrightarrow> committed (step s) = committed s"
proof -
  assume a: "status (step s) = Running"
  have "status (execute x f fs (s\<lparr>steps_taken := steps_taken s + 1\<rparr>)) = Running \<Longrightarrow>
        committed (execute x f fs (s\<lparr>steps_taken := steps_taken s + 1\<rparr>)) = committed s" for x f fs
    using committed_execute[of x f fs "s\<lparr>steps_taken := steps_taken s + 1\<rparr>"] by simp
  with a show ?thesis
    by (auto simp: step_def violation_def split: list.splits if_splits)
qed

lemma committed_funpow:
  "status ((step ^^ n) s) = Running \<Longrightarrow> committed ((step ^^ n) s) = committed s"
proof (induction n)
  case 0 show ?case by simp
next
  case (Suc n)
  from running_before[OF Suc.prems, of n] have "status ((step ^^ n) s) = Running" by simp
  with Suc committed_step[of "(step ^^ n) s"] show ?case by simp
qed


subsection \<open>Events that arrive during a pass\<close>

lemma reusable_addStreamEvent: "reusable (addStreamEvent name v s) n = reusable s n"
  by (simp add: reusable_def addStreamEvent_def)








subsection \<open>Running a node to its value\<close>

lemma leads_0: "ready s \<Longrightarrow> frames s = fr \<Longrightarrow> leads s 0 fr"
  by (simp add: leads_def)

lemma leads_trans:
  "leads s n fr \<Longrightarrow> leads ((step ^^ n) s) m fr' \<Longrightarrow> leads s (n + m) fr'"
  by (simp add: leads_def funpow_add add.commute[of n m])

lemma leads_fields:
  "snapshot ((step ^^ n) s) = snapshot s" "defaults ((step ^^ n) s) = defaults s"
  "program ((step ^^ n) s) = program s"
  using same_pass_funpow[of s n] by (simp_all add: same_pass_def)

lemma same_id:
  "distinct (map node_id xs) \<Longrightarrow> m \<in> set xs \<Longrightarrow> c \<in> set xs \<Longrightarrow> node_id m = node_id c \<Longrightarrow> m = c"
  by (meson distinct_map inj_on_def)

lemma step_ready:
  assumes "ready s" "frames s = f # fs" "cursor f < length (frame_steps f)"
  shows "step s = execute (frame_steps f ! cursor f) f fs (s\<lparr> steps_taken := steps_taken s + 1 \<rparr>)"
  using assms by (simp add: ready_def step_at)

lemma step_push:
  assumes "ready s" "frames s = f # fs" "cursor f < length (frame_steps f)"
      and "frame_steps f ! cursor f = PushOperand v"
  shows "leads s 1 (push_value v f # fs)"
  using assms step_ready[OF assms(1-3)]
  by (simp add: leads_def ready_def correct_cache_def)

lemma step_initialize:
  assumes "ready s" "frames s = f # fs" "cursor f < length (frame_steps f)"
      and "frame_steps f ! cursor f = Initialize name"
  shows "leads s 1
           (push_value (case snapshot s name of Some v \<Rightarrow> v | None \<Rightarrow> defaults s name) f # fs)"
  using assms step_ready[OF assms(1-3)]
  by (simp add: leads_def ready_def correct_cache_def cong: option.case_cong)

lemma reusable_steps_taken: "reusable (s\<lparr> steps_taken := n \<rparr>) c = reusable s c"
  by (simp add: reusable_def)

lemma step_reuse:
  assumes "ready s" "frames s = f # fs" "cursor f < length (frame_steps f)"
      and "frame_steps f ! cursor f = EvaluateChild k" "k < length (children (frame_node f))"
      and "reusable s (children (frame_node f) ! k) = Some v"
  shows "leads s 1 (push_value v f # fs)"
proof -
  from assms(6) have "reusable (s\<lparr> steps_taken := steps_taken s + 1 \<rparr>) (children (frame_node f) ! k) = Some v"
    by (simp only: reusable_steps_taken)
  with assms step_ready[OF assms(1-3)] show ?thesis
    by (simp add: leads_def ready_def correct_cache_def)
qed

lemma step_enter:
  assumes "ready s" "frames s = f # fs" "cursor f < length (frame_steps f)"
      and "frame_steps f ! cursor f = EvaluateChild k" "k < length (children (frame_node f))"
      and "reusable s (children (frame_node f) ! k) = None"
  shows "leads s 1 (new_frame (children (frame_node f) ! k) # f # fs)"
proof -
  from assms(6) have "reusable (s\<lparr> steps_taken := steps_taken s + 1 \<rparr>) (children (frame_node f) ! k) = None"
    by (simp only: reusable_steps_taken)
  with assms step_ready[OF assms(1-3)] show ?thesis
    by (simp add: leads_def ready_def correct_cache_def enter_def)
qed

lemma step_apply:
  assumes "ready s" "frames s = f # fs" "cursor f < length (frame_steps f)"
      and "frame_steps f ! cursor f = ApplyOperation op" "value_stack f = [right, left]"
  shows "leads s 1
           (f\<lparr> value_stack := [apply_operation op left right], cursor := cursor f + 1 \<rparr> # fs)"
  using assms step_ready[OF assms(1-3)]
  by (simp add: leads_def ready_def correct_cache_def)

lemma step_finish_parent:
  assumes "ready s" "frames s = f # p # ps" "cursor f < length (frame_steps f)"
      and "frame_steps f ! cursor f = Finish" "value_stack f = [v]"
      and "frame_node f \<in> set (subnodes (program s))"
      and "v = value_of (snapshot s) (defaults s) (frame_node f)"
  shows "leads s 1 (push_value v p # ps)"
proof -
  have st: "step s = s\<lparr> steps_taken := steps_taken s + 1,
                cache := (cache s)(node_id (frame_node f) \<mapsto> v),
                stale := stale s - {node_id (frame_node f)},
                frames := push_value v p # ps \<rparr>"
    using assms step_ready[OF assms(1-3)] by simp
  from assms(1) have d: "distinct (map node_id (subnodes (program s)))"
    and cc: "correct_cache s" by (simp_all add: ready_def)
  have "correct_cache (step s)"
    unfolding correct_cache_def
  proof (intro ballI allI impI)
    fix m w assume m: "m \<in> set (subnodes (program (step s)))"
      and w: "cache (step s) (node_id m) = Some w"
    from m have m': "m \<in> set (subnodes (program s))" by (simp add: st)
    show "w = value_of (snapshot (step s)) (defaults (step s)) m"
    proof (cases "node_id m = node_id (frame_node f)")
      case True
      with same_id[OF d m' assms(6)] have "m = frame_node f" by simp
      with w True assms(7) show ?thesis by (simp add: st)
    next
      case False
      with w have "cache s (node_id m) = Some w" by (simp add: st)
      with cc m' show ?thesis by (simp add: correct_cache_def st)
    qed
  qed
  with assms(1) show ?thesis
    by (simp add: leads_def ready_def) (simp add: st)
qed

lemma step_finish_root:
  assumes "ready s" "frames s = [f]" "cursor f < length (frame_steps f)"
      and "frame_steps f ! cursor f = Finish" "value_stack f = [v]"
  shows "status (step s) = Terminated (terminal_of v)" "committed (step s) = committed s @ [v]"
    "cache (step s) (node_id (frame_node f)) = Some v"
  using assms step_ready[OF assms(1-3)] by simp_all

lemma cost_pos: "2 \<le> cost c"
  by (cases c) simp_all

lemma reusable_correct:
  assumes "ready s" "c \<in> set (subnodes (program s))" "reusable s c = Some v"
  shows "v = value_of (snapshot s) (defaults s) c"
proof -
  from assms(3) have "cache s (node_id c) = Some v"
    by (simp add: reusable_def split: if_splits)
  with assms(1,2) show ?thesis by (simp add: ready_def correct_cache_def)
qed

lemma done_frame_fields:
  "cursor (done_frame c v) < length (frame_steps (done_frame c v))"
  "value_stack (done_frame c v) = [v]" "frame_node (done_frame c v) = c"
  by (cases c; simp add: done_frame_def length_operation_steps)+

lemma done_frame_finish: "frame_steps (done_frame c v) ! cursor (done_frame c v) = Finish"
proof (cases c)
  case (BinaryOperation i first rest)
  then show ?thesis
    using generate_finish[of i first rest]
    by (simp add: done_frame_def length_generate del: generate.simps)
qed (simp_all add: done_frame_def)

lemma funpow_split: "(step ^^ (a + b)) s = (step ^^ b) ((step ^^ a) s)"
  by (simp add: funpow_add add.commute[of a b])

lemma leads_then:
  "leads s a fr \<Longrightarrow> leads ((step ^^ a) s) b fr' \<Longrightarrow> leads s (a + b) fr'"
  by (rule leads_trans)

lemma leads_then3:
  assumes "leads s a fr" "leads ((step ^^ a) s) b fr'" "leads ((step ^^ b) ((step ^^ a) s)) c fr''"
  shows "leads s (a + b + c) fr''"
proof -
  from assms(1,2) have "leads s (a + b) fr'" by (rule leads_trans)
  moreover from assms(3) have "leads ((step ^^ (a + b)) s) c fr''" by (simp only: funpow_split)
  ultimately show ?thesis by (rule leads_trans)
qed

lemma eval_child:
  assumes ok: "node_ok c"
      and r: "ready s" and fr: "frames s = f # fs"
      and inP: "frame_node f \<in> set (subnodes (program s))"
      and cur: "cursor f < length (frame_steps f)"
      and ec: "frame_steps f ! cursor f = EvaluateChild k"
      and k: "k < length (children (frame_node f))"
      and c: "children (frame_node f) ! k = c"
  shows "\<exists>n \<le> cost c + 1. leads s n (push_value (value_of (snapshot s) (defaults s) c) f # fs)"
proof -
  have cP: "c \<in> set (subnodes (program s))"
    using children_subnodes[OF inP k] c by simp
  show ?thesis
  proof (cases "reusable s c")
    case (Some v)
    with reusable_correct[OF r cP] have v: "v = value_of (snapshot s) (defaults s) c" by simp
    from step_reuse[OF r fr cur ec k] Some c have "leads s 1 (push_value v f # fs)" by simp
    with v show ?thesis by (intro exI[of _ 1]) simp
  next
    case None
    let ?v = "value_of (snapshot s) (defaults s) c"
    let ?s1 = "(step ^^ 1) s"
    from step_enter[OF r fr cur ec k] None c have l1: "leads s 1 (new_frame c # f # fs)" by simp
    then have r1: "ready ?s1" and f1: "frames ?s1 = new_frame c # f # fs"
      by (simp_all add: leads_def)
    have same1: "snapshot ?s1 = snapshot s" "defaults ?s1 = defaults s" "program ?s1 = program s"
      by (rule leads_fields)+
    from ok r1 f1 cP same1 obtain n where n: "n < cost c"
      and l2: "leads ?s1 n (done_frame c ?v # f # fs)"
      unfolding node_ok_def by (metis (no_types))
    let ?s2 = "(step ^^ n) ?s1"
    from l2 have r2: "ready ?s2" and f2: "frames ?s2 = done_frame c ?v # f # fs"
      by (simp_all add: leads_def)
    have same2: "snapshot ?s2 = snapshot s" "defaults ?s2 = defaults s" "program ?s2 = program s"
      using leads_fields[of n ?s1] same1 by simp_all
    have l3: "leads ?s2 1 (push_value ?v f # fs)"
      using same2 cP
      by (intro step_finish_parent[OF r2 f2])
         (simp_all add: done_frame_fields done_frame_finish)
    from leads_then3[OF l1 l2 l3] n show ?thesis
      by (intro exI[of _ "1 + n + 1"]) simp
  qed
qed

lemma eval_operations:
  assumes "\<forall>(op, m) \<in> set remaining. node_ok m"
      and "rest = finished @ remaining"
      and "ready s" "frames s = f # fs"
      and "frame_node f = BinaryOperation i first rest"
      and "frame_steps f = generate (BinaryOperation i first rest)"
      and "cursor f = 2 * length finished + 1" "value_stack f = [acc]"
      and "BinaryOperation i first rest \<in> set (subnodes (program s))"
  shows "\<exists>n \<le> sum_list (map (\<lambda>(op, m). 2 + cost m) remaining).
           leads s n
             (f\<lparr> cursor := 2 * length rest + 1,
                 value_stack :=
                   [foldl (\<lambda>left (op, m). apply_operation op left
                              (value_of (snapshot s) (defaults s) m)) acc remaining] \<rparr> # fs)"
  using assms
proof (induction remaining arbitrary: finished acc s f)
  case Nil
  then have "f\<lparr> cursor := 2 * length rest + 1, value_stack := [acc] \<rparr> = f" by simp
  with Nil show ?case by (intro exI[of _ 0]) (simp add: leads_0)
next
  case (Cons x remaining)
  obtain op m where x: "x = (op, m)" by (cases x)
  let ?N = "BinaryOperation i first rest"
  let ?j = "length finished"
  let ?vm = "value_of (snapshot s) (defaults s) m"
  from Cons.prems(2) x have j: "?j < length rest" and nth: "rest ! ?j = (op, m)" by simp_all
  from Cons.prems(1) x have okm: "node_ok m" by simp
  have cur: "cursor f < length (frame_steps f)"
    using Cons.prems(6,7) j by (simp add: length_operation_steps)
  have ec: "frame_steps f ! cursor f = EvaluateChild (Suc ?j)"
    using generate_child[OF j, of i first] Cons.prems(6,7) by simp
  have k: "Suc ?j < length (children (frame_node f))"
    using Cons.prems(5) j by simp
  have ch: "children (frame_node f) ! Suc ?j = m"
    using Cons.prems(5) j nth by simp
  have inP: "frame_node f \<in> set (subnodes (program s))"
    using Cons.prems(5,9) by simp
  from eval_child[OF okm Cons.prems(3,4) inP cur ec k ch]
  obtain n1 where n1: "n1 \<le> cost m + 1" and l1: "leads s n1 (push_value ?vm f # fs)" by blast
  let ?s1 = "(step ^^ n1) s"
  let ?f1 = "push_value ?vm f"
  from l1 have r1: "ready ?s1" and f1: "frames ?s1 = ?f1 # fs" by (simp_all add: leads_def)
  have same1: "snapshot ?s1 = snapshot s" "defaults ?s1 = defaults s" "program ?s1 = program s"
    by (rule leads_fields)+
  have cur1: "cursor ?f1 < length (frame_steps ?f1)"
    using Cons.prems(6,7) j by (simp add: push_value_def length_operation_steps)
  have ap: "frame_steps ?f1 ! cursor ?f1 = ApplyOperation op"
    using generate_apply[OF j, of i first] Cons.prems(6,7) nth by (simp add: push_value_def)
  have vs1: "value_stack ?f1 = [?vm, acc]"
    using Cons.prems(8) by (simp add: push_value_def)
  let ?f2 = "?f1\<lparr> value_stack := [apply_operation op acc ?vm], cursor := cursor ?f1 + 1 \<rparr>"
  from step_apply[OF r1 f1 cur1 ap vs1] have l2: "leads ?s1 1 (?f2 # fs)" .
  let ?s2 = "(step ^^ 1) ?s1"
  from l2 have r2: "ready ?s2" and f2: "frames ?s2 = ?f2 # fs" by (simp_all add: leads_def)
  have same2: "snapshot ?s2 = snapshot s" "defaults ?s2 = defaults s" "program ?s2 = program s"
    using leads_fields[of 1 ?s1] same1 by simp_all
  have "\<exists>n \<le> sum_list (map (\<lambda>(op, m). 2 + cost m) remaining).
           leads ?s2 n
             (?f2\<lparr> cursor := 2 * length rest + 1,
                 value_stack :=
                   [foldl (\<lambda>left (op, m). apply_operation op left
                              (value_of (snapshot ?s2) (defaults ?s2) m))
                      (apply_operation op acc ?vm) remaining] \<rparr> # fs)"
  proof (rule Cons.IH[where finished = "finished @ [(op, m)]"])
    show "\<forall>(op, m) \<in> set remaining. node_ok m" using Cons.prems(1) by simp
    show "rest = (finished @ [(op, m)]) @ remaining" using Cons.prems(2) x by simp
    show "ready ?s2" by (rule r2)
    show "frames ?s2 = ?f2 # fs" by (rule f2)
    show "frame_node ?f2 = ?N" using Cons.prems(5) by (simp add: push_value_def)
    show "frame_steps ?f2 = generate ?N" using Cons.prems(6) by (simp add: push_value_def)
    show "cursor ?f2 = 2 * length (finished @ [(op, m)]) + 1"
      using Cons.prems(7) by (simp add: push_value_def)
    show "value_stack ?f2 = [apply_operation op acc ?vm]" by simp
    show "?N \<in> set (subnodes (program ?s2))" using Cons.prems(9) same2 by simp
  qed
  then obtain n3 where n3: "n3 \<le> sum_list (map (\<lambda>(op, m). 2 + cost m) remaining)"
    and l3: "leads ?s2 n3
             (?f2\<lparr> cursor := 2 * length rest + 1,
                 value_stack :=
                   [foldl (\<lambda>left (op, m). apply_operation op left
                              (value_of (snapshot s) (defaults s) m))
                      (apply_operation op acc ?vm) remaining] \<rparr> # fs)"
    using same2 by auto
  have fin: "?f2\<lparr> cursor := 2 * length rest + 1,
                 value_stack :=
                   [foldl (\<lambda>left (op, m). apply_operation op left
                              (value_of (snapshot s) (defaults s) m))
                      (apply_operation op acc ?vm) remaining] \<rparr>
       = f\<lparr> cursor := 2 * length rest + 1,
                 value_stack :=
                   [foldl (\<lambda>left (op, m). apply_operation op left
                              (value_of (snapshot s) (defaults s) m)) acc (x # remaining)] \<rparr>"
    by (simp add: push_value_def x)
  from leads_then3[OF l1 l2 l3] fin
  have "leads s (n1 + 1 + n3)
          (f\<lparr> cursor := 2 * length rest + 1,
                 value_stack :=
                   [foldl (\<lambda>left (op, m). apply_operation op left
                              (value_of (snapshot s) (defaults s) m)) acc (x # remaining)] \<rparr> # fs)"
    by simp
  moreover have "n1 + 1 + n3 \<le> sum_list (map (\<lambda>(op, m). 2 + cost m) (x # remaining))"
    using n1 n3 x by simp
  ultimately show ?case by blast
qed

lemma node_ok_Literal: "node_ok (Literal i v)"
  unfolding node_ok_def
proof (intro allI impI)
  fix s fs assume r: "ready s" and fr: "frames s = new_frame (Literal i v) # fs"
  have "leads s 1 (push_value v (new_frame (Literal i v)) # fs)"
    by (rule step_push[OF r fr]) (simp_all add: new_frame_def)
  moreover have "push_value v (new_frame (Literal i v)) = done_frame (Literal i v) v"
    by (simp add: push_value_def new_frame_def done_frame_def)
  ultimately show "\<exists>n < cost (Literal i v).
      leads s n (done_frame (Literal i v) (value_of (snapshot s) (defaults s) (Literal i v)) # fs)"
    by (intro exI[of _ 1]) simp
qed

lemma node_ok_StreamRead: "node_ok (StreamRead i name)"
  unfolding node_ok_def
proof (intro allI impI)
  fix s fs assume r: "ready s" and fr: "frames s = new_frame (StreamRead i name) # fs"
  let ?v = "case snapshot s name of Some v \<Rightarrow> v | None \<Rightarrow> defaults s name"
  have "leads s 1 (push_value ?v (new_frame (StreamRead i name)) # fs)"
    by (rule step_initialize[OF r fr]) (simp_all add: new_frame_def)
  moreover have "push_value ?v (new_frame (StreamRead i name)) = done_frame (StreamRead i name) ?v"
    by (simp add: push_value_def new_frame_def done_frame_def)
  ultimately show "\<exists>n < cost (StreamRead i name).
      leads s n (done_frame (StreamRead i name)
                   (value_of (snapshot s) (defaults s) (StreamRead i name)) # fs)"
    by (intro exI[of _ 1]) simp
qed

lemma node_ok_BinaryOperation:
  assumes first: "node_ok first" and rest: "\<forall>(op, m) \<in> set rest. node_ok m"
  shows "node_ok (BinaryOperation i first rest)"
  unfolding node_ok_def
proof (intro allI impI)
  let ?N = "BinaryOperation i first rest"
  fix s fs assume r: "ready s" and inP: "?N \<in> set (subnodes (program s))"
    and fr: "frames s = new_frame ?N # fs"
  let ?f = "new_frame ?N"
  let ?v0 = "value_of (snapshot s) (defaults s) first"
  have "\<exists>n \<le> cost first + 1. leads s n (push_value ?v0 ?f # fs)"
    by (rule eval_child[OF first r fr, where k = 0]) (simp_all add: new_frame_def inP)
  then obtain n1 where n1: "n1 \<le> cost first + 1" and l1: "leads s n1 (push_value ?v0 ?f # fs)"
    by blast
  let ?s1 = "(step ^^ n1) s"
  let ?f1 = "push_value ?v0 ?f"
  from l1 have r1: "ready ?s1" and f1: "frames ?s1 = ?f1 # fs" by (simp_all add: leads_def)
  have same1: "snapshot ?s1 = snapshot s" "defaults ?s1 = defaults s" "program ?s1 = program s"
    by (rule leads_fields)+
  have "\<exists>n \<le> sum_list (map (\<lambda>(op, m). 2 + cost m) rest).
           leads ?s1 n
             (?f1\<lparr> cursor := 2 * length rest + 1,
                 value_stack :=
                   [foldl (\<lambda>left (op, m). apply_operation op left
                              (value_of (snapshot ?s1) (defaults ?s1) m)) ?v0 rest] \<rparr> # fs)"
    by (rule eval_operations[OF rest, where finished = "[]" and i = i and first = first])
       (simp_all add: r1 f1 push_value_def new_frame_def same1 inP del: generate.simps)
  then obtain n2 where n2: "n2 \<le> sum_list (map (\<lambda>(op, m). 2 + cost m) rest)"
    and l2: "leads ?s1 n2
             (?f1\<lparr> cursor := 2 * length rest + 1,
                 value_stack :=
                   [foldl (\<lambda>left (op, m). apply_operation op left
                              (value_of (snapshot s) (defaults s) m)) ?v0 rest] \<rparr> # fs)"
    using same1 by auto
  have "?f1\<lparr> cursor := 2 * length rest + 1,
                 value_stack :=
                   [foldl (\<lambda>left (op, m). apply_operation op left
                              (value_of (snapshot s) (defaults s) m)) ?v0 rest] \<rparr>
        = done_frame ?N (value_of (snapshot s) (defaults s) ?N)"
    by (simp add: push_value_def new_frame_def done_frame_def length_operation_steps)
  with leads_trans[OF l1 l2]
  have "leads s (n1 + n2) (done_frame ?N (value_of (snapshot s) (defaults s) ?N) # fs)" by simp
  moreover from n1 n2 have "n1 + n2 < cost ?N" by simp
  ultimately show "\<exists>n < cost ?N.
      leads s n (done_frame ?N (value_of (snapshot s) (defaults s) ?N) # fs)" by blast
qed

lemma node_ok: "node_ok c"
proof (induction c)
  case (Literal i v)
  show ?case by (rule node_ok_Literal)
next
  case (StreamRead i name)
  show ?case by (rule node_ok_StreamRead)
next
  case (BinaryOperation i first rest)
  have "\<forall>(op, m) \<in> set rest. node_ok m"
    using BinaryOperation(2) by (auto simp: snds.simps)
  with BinaryOperation(1) show ?case by (rule node_ok_BinaryOperation)
qed

subsection \<open>The value of a pass\<close>

lemma run_enough:
  assumes "status ((step ^^ n) s) \<noteq> Running" "n \<le> b"
  shows "run b s = (step ^^ n) s"
proof -
  from assms(2) obtain k where b: "b = n + k" by (metis le_Suc_ex)
  show ?thesis unfolding b run_add by (rule run_not_running[OF assms(1)])
qed

lemma pass_value:
  assumes r: "ready s" and fr: "frames s = [new_frame (program s)]" and b: "cost (program s) \<le> b"
  shows "committed (run b s) = committed s @ [value_of (snapshot s) (defaults s) (program s)]
       \<and> status (run b s) = Terminated (terminal_of (value_of (snapshot s) (defaults s) (program s)))"
proof -
  let ?P = "program s"
  let ?v = "value_of (snapshot s) (defaults s) ?P"
  from node_ok[of ?P] r fr obtain n where n: "n < cost ?P"
    and l: "leads s n [done_frame ?P ?v]"
    unfolding node_ok_def using self_subnode[of ?P] by blast
  let ?s1 = "(step ^^ n) s"
  from l have r1: "ready ?s1" and f1: "frames ?s1 = [done_frame ?P ?v]" by (simp_all add: leads_def)
  from r1 have "status ?s1 = Running" by (simp add: ready_def)
  then have c1: "committed ?s1 = committed s" by (rule committed_funpow)
  have fin: "status (step ?s1) = Terminated (terminal_of ?v)"
            "committed (step ?s1) = committed ?s1 @ [?v]"
    by (rule step_finish_root[OF r1 f1]; simp add: done_frame_fields done_frame_finish)+
  have "run b s = (step ^^ Suc n) s"
    by (rule run_enough) (use fin n b in simp_all)
  with fin c1 show ?thesis by simp
qed

lemma first_pass:
  assumes "distinct (map node_id (subnodes P))" "cost P \<le> b"
  shows "committed (evaluate (new_engine P b d h)) = [value_of (snapshotAll (new_engine P b d h)) d P]
       \<and> status (evaluate (new_engine P b d h))
           = Terminated (terminal_of (value_of (snapshotAll (new_engine P b d h)) d P))"
proof -
  let ?e = "new_engine P b d h"
  let ?s = "open_pass ?e"
  have op: "?s = enter P (?e\<lparr> snapshot := snapshotAll ?e, status := Running \<rparr>)"
    by (simp add: open_pass_def Let_def new_engine_def reusable_def snapshotAll_def)
  have r: "ready ?s"
    unfolding op using assms(1) by (simp add: ready_def correct_cache_def enter_def new_engine_def)
  have fr: "frames ?s = [new_frame (program ?s)]"
    unfolding op by (simp add: enter_def new_engine_def)
  have fields: "program ?s = P" "snapshot ?s = snapshotAll ?e" "defaults ?s = d" "committed ?s = []"
    unfolding op by (simp_all add: enter_def new_engine_def)
  have ev: "evaluate ?e = run b ?s"
    by (simp add: evaluate_def) (simp add: new_engine_def)
  from pass_value[OF r fr, of b] assms(2) show ?thesis
    by (simp add: ev fields)
qed


subsection \<open>Claims about the evaluation engine\<close>

text \<open>
  C1. For every binary operator chain, operands are evaluated strictly in source
  left-to-right order, never by arithmetic precedence. The first pass of the engine on a
  chain \<open>first op\<^sub>1 n\<^sub>1 \<dots> op\<^sub>k n\<^sub>k\<close>, whose nodes have distinct ids and whose steps fit the
  budget, commits exactly one value: the operators applied one after the other from the
  left, each to the value so far and the value of the next operand. The chain
  \<^verbatim>\<open>2 + 3 \<times> 2\<close> commits 10, which is \<open>(2 + 3) \<times> 2\<close>, and not 8.
\<close>

theorem left_to_right:
  assumes "distinct (map node_id (subnodes (BinaryOperation i first rest)))"
      and "cost (BinaryOperation i first rest) \<le> b"
  shows "committed (evaluate (new_engine (BinaryOperation i first rest) b d h)) =
           [foldl (\<lambda>left (op, operand).
                     apply_operation op left
                       (value_of (snapshotAll (new_engine (BinaryOperation i first rest) b d h)) d operand))
              (value_of (snapshotAll (new_engine (BinaryOperation i first rest) b d h)) d first)
              rest]"
  using first_pass[OF assms, of d h] by simp

theorem left_to_right_witness:
  "distinct (map node_id (subnodes two_plus_three_times_two))
   \<and> cost two_plus_three_times_two \<le> 12
   \<and> committed (evaluate (new_engine two_plus_three_times_two 12 (\<lambda>name. NumberValue 0) (\<lambda>name. [])))
       = [NumberValue 10]
   \<and> NumberValue 10 \<noteq> NumberValue 8"
proof -
  have d: "distinct (map node_id (subnodes (BinaryOperation 0 (Literal 1 (NumberValue 2))
       [(Plus, Literal 2 (NumberValue 3)), (Times, Literal 3 (NumberValue 2))])))" by simp
  have c: "cost (BinaryOperation 0 (Literal 1 (NumberValue 2))
       [(Plus, Literal 2 (NumberValue 3)), (Times, Literal 3 (NumberValue 2))]) \<le> 12" by simp
  from left_to_right[OF d c, of "\<lambda>name. NumberValue 0" "\<lambda>name. []"] d c
  show ?thesis by (simp add: two_plus_three_times_two_def)
qed



subsection \<open>The scenario of the time stream\<close>






subsection \<open>Events and snapshots\<close>






lemma evaluate_not_running: "status s \<noteq> Running \<Longrightarrow> status (evaluate s) \<noteq> Running"
proof -
  assume a: "status s \<noteq> Running"
  have ip: "in_pass (status (open_pass s))"
    using open_pass_status[of s] by (auto simp: in_pass_def)
  from status_run(2)[OF ip, of "budget s"] a show ?thesis by (simp add: evaluate_def)
qed






end
